theory Spec2Isabelle
  imports Complex_Main
begin

section \<open>Data model of the metric computation in \<^verbatim>\<open>dexnet/api.py\<close>\<close>

text \<open>
  Python floats are modelled as \<^typ>\<open>real\<close>: the properties below are about signs, shapes,
  call order and control flow, not about rounding.  One-dimensional numpy arrays are lists.
\<close>

type_synonym vec = "real list"

text \<open>
  Modelled from the spec: the \<^verbatim>\<open>StablePose\<close> class is not part of the source file.  A stable
  pose has an identifier, a probability and a 3x3 orientation whose row 2 is the table-contact
  normal in the object frame.  The orientation is kept as its three rows, so that
  \<^verbatim>\<open>stable_pose.r[2]\<close> is the third component.
\<close>

datatype vec3 = Vec3 real real real

datatype mat3 = Mat3 vec3 vec3 vec3

fun row2 :: "mat3 \<Rightarrow> vec3" where
  "row2 (Mat3 r0 r1 r2) = r2"

fun vec3_list :: "vec3 \<Rightarrow> vec" where
  "vec3_list (Vec3 x y z) = [x, y, z]"

fun dot3 :: "vec3 \<Rightarrow> vec3 \<Rightarrow> real" where
  "dot3 (Vec3 a b c) (Vec3 x y z) = a * x + b * y + c * z"

record stable_pose =
  sp_id :: string
  sp_r :: mat3
  sp_p :: real

record graspable =
  key :: string
  mass :: real

section \<open>\<^verbatim>\<open>DexNet._gravity_wrench\<close>\<close>

text \<open>
  \<^verbatim>\<open>
  gravity_magnitude = obj.mass * GRAVITY_ACCEL
  stable_pose_normal = stable_pose.r[2]
  gravity_force = -gravity_magnitude * stable_pose_normal
  gravity_resist_wrench = -np.append(gravity_force, [0,0,0])
  return gravity_resist_wrench
  \<close>
  The constant \<^verbatim>\<open>GRAVITY_ACCEL\<close> comes from \<^verbatim>\<open>dexnet.constants\<close>, which is not part of the
  source file; it is the first parameter.
\<close>

definition gravity_wrench :: "real \<Rightarrow> 'a graspable_scheme \<Rightarrow> 'b stable_pose_scheme \<Rightarrow> vec" where
  "gravity_wrench GRAVITY_ACCEL obj stable_pose =
     (let gravity_magnitude = mass obj * GRAVITY_ACCEL;
          stable_pose_normal = vec3_list (row2 (sp_r stable_pose));
          gravity_force = map (\<lambda>x. (- gravity_magnitude) * x) stable_pose_normal;
          gravity_resist_wrench = map uminus (gravity_force @ [0, 0, 0])
      in gravity_resist_wrench)"

text \<open>The force component of a wrench is its first three entries, the torque the rest.\<close>

definition force_component :: "vec \<Rightarrow> vec" where
  "force_component w = take 3 w"

definition torque_component :: "vec \<Rightarrow> vec" where
  "torque_component w = drop 3 w"

section \<open>Errors, numpy floats and the weighted draw\<close>

datatype error =
  ValueError | RuntimeError | RuntimeWarning | ZeroDivisionError | IndexError | KeyError
  | ConfigError | QualityError

text \<open>
  A numpy float division by zero does not raise: it warns and yields nan or an infinity.
  \<open>NonFinite\<close> stands for these values.
\<close>

datatype npfloat = Finite real | NonFinite

definition np_divide :: "real \<Rightarrow> real \<Rightarrow> npfloat" where
  "np_divide x s = (if s = 0 then NonFinite else Finite (x / s))"

fun is_finite :: "npfloat \<Rightarrow> bool" where
  "is_finite (Finite x) = True"
| "is_finite NonFinite = False"

fun finite_val :: "npfloat \<Rightarrow> real" where
  "finite_val (Finite x) = x"
| "finite_val NonFinite = 0"

fun positive :: "npfloat \<Rightarrow> bool" where
  "positive (Finite x) = (0 < x)"
| "positive NonFinite = False"

fun negative :: "npfloat \<Rightarrow> bool" where
  "negative (Finite x) = (x < 0)"
| "negative NonFinite = False"

text \<open>The tolerance of numpy's check that the weights sum to 1: the square root of the
  float64 machine epsilon.\<close>

definition atol :: real where
  "atol = 1 / 2 ^ 26"

text \<open>
  \<^verbatim>\<open>np.random.choice(a, size=size, replace=False, p=p)\<close>, a library function outside the
  repository, by its documented contract: it raises ValueError when the weights contain a
  non-finite or a negative value, do not sum to 1, when the size is negative or larger than
  the population, or when fewer than \<^verbatim>\<open>size\<close> (here \<open>sz\<close>) weights are positive;
  otherwise it returns \<^verbatim>\<open>size\<close> elements of \<^verbatim>\<open>a\<close>, at distinct indices of positive weight.
  Every error of the call is a ValueError, so the order of the checks does not show.
  (Recent numpy rejects nan weights by an explicit check; earlier versions reject them
  through the count of positive weights, for every positive size.)
\<close>

definition choice_raises :: "'a list \<Rightarrow> int \<Rightarrow> npfloat list \<Rightarrow> bool" where
  "choice_raises a sz p =
     (length p \<noteq> length a
      \<or> \<not> list_all is_finite p
      \<or> list_ex negative p
      \<or> \<bar>sum_list (map finite_val p) - 1\<bar> > atol
      \<or> sz < 0
      \<or> sz > int (length a)
      \<or> int (length (filter positive p)) < sz)"

text \<open>
  Which indices are returned is decided by the random generator.  The generator is a source
  of arbitrary natural numbers (a missing value counts as 0): each value selects one of the
  indices of positive weight that have not been selected yet.  So whatever the generator
  yields, the selection is one that the contract admits, and each selection that the
  contract admits is made for some values of the generator (lemmas \<open>select_indices_valid\<close>
  and \<open>select_indices_complete\<close> below).  How likely each selection is, is not modelled.
\<close>

definition positive_indices :: "npfloat list \<Rightarrow> nat list" where
  "positive_indices p = filter (\<lambda>i. positive (p ! i)) [0..<length p]"

fun select_indices :: "nat list \<Rightarrow> nat list \<Rightarrow> nat \<Rightarrow> nat list" where
  "select_indices candidates draw 0 = []"
| "select_indices candidates draw (Suc n) =
     (if candidates = [] then []
      else
        let r = (case draw of [] \<Rightarrow> 0 | r # _ \<Rightarrow> r);
            i = candidates ! (r mod length candidates)
        in i # select_indices (remove1 i candidates) (tl draw) n)"

definition random_choice :: "nat list \<Rightarrow> 'a list \<Rightarrow> int \<Rightarrow> npfloat list \<Rightarrow> error + 'a list" where
  "random_choice draw a sz p =
     (if choice_raises a sz p then Inl ValueError
      else Inr (map (\<lambda>i. a ! i) (select_indices (positive_indices p) draw (nat sz))))"

text \<open>The selections of indices that the contract admits.\<close>

definition valid_draw :: "nat list \<Rightarrow> 'a list \<Rightarrow> int \<Rightarrow> npfloat list \<Rightarrow> bool" where
  "valid_draw idxs a sz p =
     (int (length idxs) = sz \<and> distinct idxs
      \<and> list_all (\<lambda>i. i < length a \<and> i < length p \<and> positive (p ! i)) idxs)"

section \<open>Subsampling of the stable poses\<close>

text \<open>
  \<^verbatim>\<open>
  if len(stable_poses) > config['max_stable_poses']:
      p = np.array([s.p for s in stable_poses])
      p = p / np.sum(p)
      stable_poses = np.random.choice(stable_poses, size=config['max_stable_poses'],
                                      replace=False, p=p).tolist()
  \<close>
\<close>

definition renormalize :: "real list \<Rightarrow> npfloat list" where
  "renormalize p = map (\<lambda>x. np_divide x (sum_list p)) p"

definition sample_stable_poses ::
  "nat list \<Rightarrow> int \<Rightarrow> 'a stable_pose_scheme list \<Rightarrow> error + 'a stable_pose_scheme list" where
  "sample_stable_poses draw max_stable_poses stable_poses =
     (if int (length stable_poses) > max_stable_poses then
        let p = map sp_p stable_poses;
            p = renormalize p
        in random_choice draw stable_poses max_stable_poses p
      else Inr stable_poses)"

section \<open>Metric configurations and variant expansion\<close>

text \<open>
  The attributes of a metric configuration that \<^verbatim>\<open>_compute_metrics\<close> reads or writes.
  An attribute that may be unset is an option.
\<close>

record metric_config =
  quality_method :: string
  max_approach_table_angle :: real
  target_wrench :: "vec option"
  force_limits :: "real option"
  finger_radius :: "real option"
  inner_radius :: "real option"
  height :: "real option"

record gripper =
  g_name :: string
  g_type :: string
  g_force_limit :: real
  g_finger_radius :: real
  g_inner_radius :: "real option"
  g_height :: "real option"

definition gravity_method :: "string \<Rightarrow> bool" where
  "gravity_method qm =
     (qm = ''partial_closure'' \<or> qm = ''wrench_resistance'' \<or> qm = ''suction_wrench_resistance'')"

text \<open>
  \<^verbatim>\<open>
  for stable_pose in stable_poses:
      gravity_metric_config = copy.copy(metric_config)
      gravity_metric_config.target_wrench = self._gravity_wrench(obj, stable_pose)
      metric_names.append(metric_name + '_' + stable_pose.id)
      metric_configs.append(gravity_metric_config)
  \<close>
\<close>

fun add_gravity_wrenches ::
  "real \<Rightarrow> graspable \<Rightarrow> string \<Rightarrow> metric_config \<Rightarrow> stable_pose list
   \<Rightarrow> string list \<times> metric_config list \<Rightarrow> string list \<times> metric_config list" where
  "add_gravity_wrenches g obj metric_name metric_config [] (metric_names, metric_configs) =
     (metric_names, metric_configs)"
| "add_gravity_wrenches g obj metric_name metric_config (stable_pose # rest)
     (metric_names, metric_configs) =
     (let gravity_metric_config =
            metric_config\<lparr>target_wrench := Some (gravity_wrench g obj stable_pose)\<rparr>
      in add_gravity_wrenches g obj metric_name metric_config rest
           (metric_names @ [metric_name @ ''_'' @ sp_id stable_pose],
            metric_configs @ [gravity_metric_config]))"

text \<open>Lines 521-538 and the \<^verbatim>\<open>zip\<close> of line 542: the (name, configuration) variants of a
  metric.\<close>

definition expand_variants ::
  "real \<Rightarrow> graspable \<Rightarrow> stable_pose list \<Rightarrow> string \<Rightarrow> metric_config
   \<Rightarrow> (string \<times> metric_config) list" where
  "expand_variants g obj stable_poses metric_name metric_config =
     (let (metric_names, metric_configs) =
            (if gravity_method (quality_method metric_config)
             then add_gravity_wrenches g obj metric_name metric_config stable_poses ([], [])
             else ([metric_name], [metric_config]))
      in zip metric_names metric_configs)"

section \<open>Collaborators and state of the metric computation\<close>

text \<open>
  The dataset and database (\<^verbatim>\<open>dexnet.database\<close>), the grasp geometry and the gripper loader
  (\<^verbatim>\<open>dexnet.grasping\<close>) and the two factories are not part of the source file.  They are
  parameters of the model: \<open>'g\<close> is the type of grasps, \<open>'d\<close> the stored state of the open
  database and dataset, \<open>'spec\<close> the type of metric specifications.  A factory or a quality
  function that raises returns \<open>Inl\<close>.
\<close>

record ('g, 'd, 'spec) collaborators =
  gravity_accel :: real
  grasp_id :: "'g \<Rightarrow> int"
  grasp_perpendicular_table :: "'g \<Rightarrow> stable_pose \<Rightarrow> 'g"
  grasp_angles_from_stp_z :: "'g \<Rightarrow> stable_pose \<Rightarrow> real \<times> real \<times> real"
  grasp_x_axis :: "'g \<Rightarrow> vec3"
  gqc_create_config :: "'spec \<Rightarrow> error + metric_config"
  gqf_create_quality_function :: "graspable \<Rightarrow> metric_config \<Rightarrow> error + ('g \<Rightarrow> error + real)"
  gr_load :: "string \<Rightarrow> string \<Rightarrow> gripper"
  os_list_grippers :: "string \<Rightarrow> string list"
  ds_object_keys :: "'d \<Rightarrow> string list"
  ds_getitem :: "'d \<Rightarrow> string \<Rightarrow> graspable"
  ds_has_grasps :: "'d \<Rightarrow> string \<Rightarrow> string \<Rightarrow> bool"
  ds_grasps :: "'d \<Rightarrow> string \<Rightarrow> string \<Rightarrow> 'g list"
  ds_stable_poses :: "'d \<Rightarrow> string \<Rightarrow> stable_pose list"
  ds_stable_pose :: "'d \<Rightarrow> string \<Rightarrow> string \<Rightarrow> error + stable_pose"
  ds_has_metric :: "'d \<Rightarrow> string \<Rightarrow> bool"
  ds_create_metric :: "string \<Rightarrow> metric_config \<Rightarrow> 'd \<Rightarrow> 'd"
  ds_grasp_metrics :: "'d \<Rightarrow> string \<Rightarrow> 'g \<Rightarrow> string \<Rightarrow> (string \<rightharpoonup> real)"
  ds_delete_grasp_metrics :: "string \<Rightarrow> 'g list \<Rightarrow> string \<Rightarrow> string \<Rightarrow> 'd \<Rightarrow> 'd"
  ds_store_grasp_metrics ::
    "string \<Rightarrow> (int \<rightharpoonup> (string \<rightharpoonup> real)) \<Rightarrow> string \<Rightarrow> bool \<Rightarrow> 'd \<Rightarrow> 'd"
  db_flush :: "'d \<Rightarrow> 'd"

text \<open>The keys of the configuration dict that the metric computation reads.  The metrics
  dict is an association list in its iteration order.\<close>

record 'spec api_config =
  max_stable_poses :: int
  metric_display_rate :: int
  delete_previous_metrics :: bool
  metrics :: "(string \<times> 'spec) list"
  gripper_dir :: string

text \<open>
  Every call that changes the store, every flush and every call of a quality function is
  appended to a trace: delete_grasp_metrics(object key, metric name, gripper name),
  create_metric(name), a quality function call (variant name, grasp id),
  store_grasp_metrics(object key, record, gripper name, force_overwrite), flush().
\<close>

datatype event =
  DeleteGraspMetrics string string string
  | CreateMetric string
  | QualityCall string int
  | StoreGraspMetrics string "int \<rightharpoonup> (string \<rightharpoonup> real)" string bool
  | Flush

fun is_store :: "event \<Rightarrow> bool" where
  "is_store (StoreGraspMetrics k gm g f) = True"
| "is_store e = False"

fun is_quality_call :: "event \<Rightarrow> bool" where
  "is_quality_call (QualityCall n i) = True"
| "is_quality_call e = False"

text \<open>
  The state of the \<^verbatim>\<open>DexNet\<close> object and of the world around it: whether a database and a
  dataset are open, the stored data, the progress field, the values that numpy's global
  random generator will yield for each of its future draws, and the trace.
\<close>

record 'd api_state =
  database_open :: bool
  dataset_open :: bool
  dataset :: 'd
  progress :: real
  rng :: "nat list list"
  trace :: "event list"

definition log_event :: "event \<Rightarrow> 'd api_state \<Rightarrow> 'd api_state" where
  "log_event e s = s\<lparr>trace := trace s @ [e]\<rparr>"

text \<open>A \<^verbatim>\<open>for\<close> loop whose body may raise: the loop stops at the first error, which carries
  the state reached when it was raised.\<close>

fun for_each :: "('a \<Rightarrow> 'st \<Rightarrow> 'e + 'st) \<Rightarrow> 'a list \<Rightarrow> 'st \<Rightarrow> 'e + 'st" where
  "for_each body [] st = Inr st"
| "for_each body (x # xs) st =
     (case body x st of Inl e \<Rightarrow> Inl e | Inr st' \<Rightarrow> for_each body xs st')"

section \<open>\<^verbatim>\<open>DexNet._compute_metrics\<close>\<close>

type_synonym grasp_metrics_record = "int \<rightharpoonup> (string \<rightharpoonup> real)"

definition deg2rad :: "real \<Rightarrow> real" where
  "deg2rad x = x * pi / 180"

text \<open>\<^verbatim>\<open>grasp_metrics[grasp.id][metric_name] = q\<close>, after the entry of the grasp has been
  initialised to the empty dict when it was absent.\<close>

definition record_quality ::
  "grasp_metrics_record \<Rightarrow> int \<Rightarrow> string \<Rightarrow> real \<Rightarrow> grasp_metrics_record" where
  "record_quality grasp_metrics gid metric_name q =
     grasp_metrics(gid \<mapsto> (case grasp_metrics gid of None \<Rightarrow> Map.empty | Some m \<Rightarrow> m)
                              (metric_name \<mapsto> q))"

definition init_grasp_entry :: "grasp_metrics_record \<Rightarrow> int \<Rightarrow> grasp_metrics_record" where
  "init_grasp_entry grasp_metrics gid =
     (if gid \<notin> dom grasp_metrics then grasp_metrics(gid \<mapsto> Map.empty) else grasp_metrics)"

text \<open>The value recorded under (grasp id, metric or variant name), if any.\<close>

definition recorded :: "grasp_metrics_record \<Rightarrow> int \<Rightarrow> string \<Rightarrow> real option" where
  "recorded grasp_metrics gid metric_name =
     (case grasp_metrics gid of None \<Rightarrow> None | Some m \<Rightarrow> m metric_name)"

text \<open>The feasibility predicate of lines 586-591 for an aligned grasp and a stable pose.\<close>

definition perpendicular_table ::
  "('g, 'd, 'spec) collaborators \<Rightarrow> metric_config \<Rightarrow> 'g \<Rightarrow> stable_pose \<Rightarrow> bool" where
  "perpendicular_table env metric_config aligned_grasp stable_pose =
     (let max_approach_table_angle = deg2rad (max_approach_table_angle metric_config);
          grasp_approach_table_angle =
            fst (snd (grasp_angles_from_stp_z env aligned_grasp stable_pose));
          stp_z = row2 (sp_r stable_pose);
          stp_z_ip = dot3 stp_z (grasp_x_axis env aligned_grasp)
      in \<bar>grasp_approach_table_angle\<bar> < max_approach_table_angle \<and> stp_z_ip < 0)"

definition align_grasp ::
  "('g, 'd, 'spec) collaborators \<Rightarrow> gripper \<Rightarrow> 'g \<Rightarrow> stable_pose \<Rightarrow> 'g" where
  "align_grasp env gripper grasp stable_pose =
     (if g_type gripper = ''parallel_jaw''
      then grasp_perpendicular_table env grasp stable_pose else grasp)"

text \<open>
  The body of the loop over the grasps, lines 562-612, for the grasp at index \<open>k\<close> of \<open>n\<close>
  grasps:
  \<^verbatim>\<open>
  if k % config['metric_display_rate'] == 0:
      self.progress = (k + 1.0) / len(grasps)
  if grasp.id not in grasp_metrics.keys():
      grasp_metrics[grasp.id] = {}
  existing_metrics = self.dataset.grasp_metrics(obj.key, [grasp], gripper=gripper.name)[grasp.id]
  if <quality_method is gravity-dependent>:
      stable_pose = stable_poses[ind]
      aligned_grasp = grasp
      if gripper.type == 'parallel_jaw':
          aligned_grasp = grasp.perpendicular_table(stable_pose)
      max_approach_table_angle = np.deg2rad(metric_config.max_approach_table_angle)
      _, grasp_approach_table_angle, _ = aligned_grasp.grasp_angles_from_stp_z(stable_pose)
      stp_z = stable_pose.r[2,:]
      stp_z_ip = stp_z.dot(aligned_grasp.T_obj_grasp.x_axis)
      perpendicular_table = (np.abs(grasp_approach_table_angle) < max_approach_table_angle) \
                            and (stp_z_ip < 0)
      q = 0
      if perpendicular_table:
          res = quality_fn(aligned_grasp)
          q = res.quality
      grasp_metrics[grasp.id][metric_name] = q
  else:
      if metric_name in existing_metrics and not overwrite:
          continue
      q = quality_fn(grasp)
      grasp_metrics[grasp.id][metric_name] = q.quality
  \<close>
  The modulo raises ZeroDivisionError for a display rate of 0, and the index raises
  IndexError out of range.  A call of the quality function is logged, whether it returns
  or raises.
\<close>

definition grasp_step ::
  "('g, 'd, 'spec) collaborators \<Rightarrow> graspable \<Rightarrow> gripper \<Rightarrow> 'spec api_config \<Rightarrow> bool
   \<Rightarrow> stable_pose list \<Rightarrow> nat \<Rightarrow> string \<Rightarrow> metric_config \<Rightarrow> ('g \<Rightarrow> error + real) \<Rightarrow> nat
   \<Rightarrow> nat \<times> 'g \<Rightarrow> grasp_metrics_record \<times> 'd api_state
   \<Rightarrow> (error \<times> 'd api_state) + (grasp_metrics_record \<times> 'd api_state)" where
  "grasp_step env obj gripper config overwrite stable_poses ind metric_name metric_config
     quality_fn n kg st =
     (let (k, grasp) = kg; (grasp_metrics, s) = st in
      if metric_display_rate config = 0 then Inl (ZeroDivisionError, s)
      else
        let s = (if int k mod metric_display_rate config = 0
                 then s\<lparr>progress := (real k + 1) / real n\<rparr> else s);
            grasp_metrics = init_grasp_entry grasp_metrics (grasp_id env grasp);
            existing_metrics =
              ds_grasp_metrics env (dataset s) (key obj) grasp (g_name gripper)
        in
          if gravity_method (quality_method metric_config) then
            if \<not> ind < length stable_poses then Inl (IndexError, s)
            else
              let stable_pose = stable_poses ! ind;
                  aligned_grasp = align_grasp env gripper grasp stable_pose
              in
                if perpendicular_table env metric_config aligned_grasp stable_pose then
                  (case quality_fn aligned_grasp of
                     Inl e \<Rightarrow>
                       Inl (e, log_event (QualityCall metric_name (grasp_id env grasp)) s)
                   | Inr q \<Rightarrow>
                       Inr (record_quality grasp_metrics (grasp_id env grasp) metric_name q,
                            log_event (QualityCall metric_name (grasp_id env grasp)) s))
                else Inr (record_quality grasp_metrics (grasp_id env grasp) metric_name 0, s)
          else
            if metric_name \<in> dom existing_metrics \<and> \<not> overwrite then Inr (grasp_metrics, s)
            else
              (case quality_fn grasp of
                 Inl e \<Rightarrow> Inl (e, log_event (QualityCall metric_name (grasp_id env grasp)) s)
               | Inr q \<Rightarrow>
                   Inr (record_quality grasp_metrics (grasp_id env grasp) metric_name q,
                        log_event (QualityCall metric_name (grasp_id env grasp)) s)))"

text \<open>Lines 549-555: the gripper's parameters are written into the configuration.\<close>

definition add_gripper_params :: "gripper \<Rightarrow> metric_config \<Rightarrow> metric_config" where
  "add_gripper_params gripper metric_config =
     (let c = metric_config\<lparr>force_limits := Some (g_force_limit gripper)\<rparr>;
          c = c\<lparr>finger_radius := Some (g_finger_radius gripper)\<rparr>;
          c = (case g_inner_radius gripper of None \<Rightarrow> c
               | Some v \<Rightarrow> c\<lparr>inner_radius := Some v\<rparr>);
          c = (case g_height gripper of None \<Rightarrow> c | Some v \<Rightarrow> c\<lparr>height := Some v\<rparr>)
      in c)"

text \<open>The body of the loop over the variants of a metric, lines 543-615.  The loop state
  is the index \<open>ind\<close>, the record and the state.\<close>

definition variant_step ::
  "('g, 'd, 'spec) collaborators \<Rightarrow> graspable \<Rightarrow> gripper \<Rightarrow> 'spec api_config \<Rightarrow> bool
   \<Rightarrow> stable_pose list \<Rightarrow> 'g list \<Rightarrow> string \<times> metric_config
   \<Rightarrow> nat \<times> grasp_metrics_record \<times> 'd api_state
   \<Rightarrow> (error \<times> 'd api_state) + (nat \<times> grasp_metrics_record \<times> 'd api_state)" where
  "variant_step env obj gripper config overwrite stable_poses grasps variant st =
     (let (metric_name, metric_config) = variant; (ind, grasp_metrics, s) = st;
          s = (if \<not> ds_has_metric env (dataset s) metric_name
               then log_event (CreateMetric metric_name)
                      (s\<lparr>dataset := ds_create_metric env metric_name metric_config (dataset s)\<rparr>)
               else s);
          metric_config = add_gripper_params gripper metric_config
      in case gqf_create_quality_function env obj metric_config of
           Inl e \<Rightarrow> Inl (e, s)
         | Inr quality_fn \<Rightarrow>
             (case for_each
                     (grasp_step env obj gripper config overwrite stable_poses ind metric_name
                        metric_config quality_fn (length grasps))
                     (enumerate 0 grasps) (grasp_metrics, s) of
                Inl e \<Rightarrow> Inl e
              | Inr (grasp_metrics, s) \<Rightarrow> Inr (ind + 1, grasp_metrics, s)))"

text \<open>The body of the loop over the metrics, lines 513-615.\<close>

definition metric_step ::
  "('g, 'd, 'spec) collaborators \<Rightarrow> graspable \<Rightarrow> gripper \<Rightarrow> 'spec api_config \<Rightarrow> bool
   \<Rightarrow> stable_pose list \<Rightarrow> 'g list \<Rightarrow> string \<times> 'spec
   \<Rightarrow> grasp_metrics_record \<times> 'd api_state
   \<Rightarrow> (error \<times> 'd api_state) + (grasp_metrics_record \<times> 'd api_state)" where
  "metric_step env obj gripper config overwrite stable_poses grasps metric st =
     (let (metric_name, metric_spec) = metric; (grasp_metrics, s) = st
      in case gqc_create_config env metric_spec of
           Inl e \<Rightarrow> Inl (e, s)
         | Inr metric_config \<Rightarrow>
            (let s = (if delete_previous_metrics config
                      then log_event
                             (DeleteGraspMetrics (key obj) metric_name (g_name gripper))
                             (s\<lparr>dataset := ds_delete_grasp_metrics env (key obj) grasps
                                              metric_name (g_name gripper) (dataset s)\<rparr>)
                      else s);
                 variants = expand_variants (gravity_accel env) obj stable_poses metric_name
                              metric_config
             in case for_each
                       (variant_step env obj gripper config overwrite stable_poses grasps)
                       variants (0, grasp_metrics, s) of
                  Inl e \<Rightarrow> Inl e
                | Inr (ind, grasp_metrics, s) \<Rightarrow> Inr (grasp_metrics, s)))"

text \<open>Lines 494-503: the stable poses of the pass, subsampled with the next values of the
  random generator when there are more than \<^verbatim>\<open>max_stable_poses\<close>.\<close>

definition load_stable_poses ::
  "('g, 'd, 'spec) collaborators \<Rightarrow> graspable \<Rightarrow> 'spec api_config \<Rightarrow> string option
   \<Rightarrow> 'd api_state \<Rightarrow> (error \<times> 'd api_state) + (stable_pose list \<times> 'd api_state)" where
  "load_stable_poses env obj config stable_pose_id s =
     (case (case stable_pose_id of
              None \<Rightarrow> Inr (ds_stable_poses env (dataset s) (key obj))
            | Some i \<Rightarrow>
                (case ds_stable_pose env (dataset s) (key obj) i of
                   Inl e \<Rightarrow> Inl e | Inr sp \<Rightarrow> Inr [sp])) of
        Inl e \<Rightarrow> Inl (e, s)
      | Inr stable_poses \<Rightarrow>
          if int (length stable_poses) > max_stable_poses config then
            (case sample_stable_poses (case rng s of [] \<Rightarrow> [] | draw # _ \<Rightarrow> draw)
                    (max_stable_poses config) stable_poses of
               Inl e \<Rightarrow> Inl (e, s)
             | Inr stable_poses \<Rightarrow> Inr (stable_poses, s\<lparr>rng := tl (rng s)\<rparr>))
          else Inr (stable_poses, s))"

text \<open>Lines 505-508: the metrics of the pass.\<close>

definition select_metrics :: "'spec api_config \<Rightarrow> string option \<Rightarrow> (string \<times> 'spec) list" where
  "select_metrics config metric_name =
     (case metric_name of
        None \<Rightarrow> metrics config
      | Some name \<Rightarrow>
          (case map_of (metrics config) name of
             None \<Rightarrow> metrics config
           | Some metric_spec \<Rightarrow> [(name, metric_spec)]))"

definition compute_metrics_pass ::
  "('g, 'd, 'spec) collaborators \<Rightarrow> graspable \<Rightarrow> gripper \<Rightarrow> 'spec api_config
   \<Rightarrow> string option \<Rightarrow> string option \<Rightarrow> bool \<Rightarrow> 'd api_state
   \<Rightarrow> (error \<times> 'd api_state) + 'd api_state" where
  "compute_metrics_pass env obj gripper config stable_pose_id metric_name overwrite s =
     (let grasps = ds_grasps env (dataset s) (key obj) (g_name gripper)
      in case load_stable_poses env obj config stable_pose_id s of
           Inl e \<Rightarrow> Inl e
         | Inr (stable_poses, s) \<Rightarrow>
             (case for_each
                     (metric_step env obj gripper config overwrite stable_poses grasps)
                     (select_metrics config metric_name) (Map.empty, s) of
                Inl e \<Rightarrow> Inl e
              | Inr (grasp_metrics, s) \<Rightarrow>
                  Inr (log_event
                         (StoreGraspMetrics (key obj) grasp_metrics (g_name gripper) True)
                         (s\<lparr>dataset := ds_store_grasp_metrics env (key obj) grasp_metrics
                                          (g_name gripper) True (dataset s)\<rparr>))))"

section \<open>\<^verbatim>\<open>DexNet.compute_metrics\<close>\<close>

text \<open>The body of the innermost loop, lines 686-700, for one (object, gripper, metric)
  tuple.\<close>

definition tuple_step ::
  "('g, 'd, 'spec) collaborators \<Rightarrow> 'spec api_config \<Rightarrow> string option \<Rightarrow> bool \<Rightarrow> string
   \<Rightarrow> gripper \<Rightarrow> string \<Rightarrow> 'd api_state \<Rightarrow> (error \<times> 'd api_state) + 'd api_state" where
  "tuple_step env config stable_pose overwrite obj_name gripper metric s =
     (if \<not> ds_has_grasps env (dataset s) obj_name (g_name gripper)
      then Inl (RuntimeWarning, s)
      else
        let obj = ds_getitem env (dataset s) obj_name
        in case compute_metrics_pass env obj gripper config stable_pose (Some metric)
                  overwrite s of
             Inl e \<Rightarrow> Inl e
           | Inr s \<Rightarrow> Inr (log_event Flush (s\<lparr>dataset := db_flush env (dataset s)\<rparr>)))"

definition gripper_step ::
  "('g, 'd, 'spec) collaborators \<Rightarrow> 'spec api_config \<Rightarrow> string list \<Rightarrow> string option \<Rightarrow> bool
   \<Rightarrow> string \<Rightarrow> string \<Rightarrow> 'd api_state \<Rightarrow> (error \<times> 'd api_state) + 'd api_state" where
  "gripper_step env config metric_names stable_pose overwrite obj_name gripper_name s =
     (let gripper = gr_load env gripper_name (gripper_dir config)
      in for_each (tuple_step env config stable_pose overwrite obj_name gripper)
           metric_names s)"

definition object_step ::
  "('g, 'd, 'spec) collaborators \<Rightarrow> 'spec api_config \<Rightarrow> string list \<Rightarrow> string list
   \<Rightarrow> string option \<Rightarrow> bool \<Rightarrow> string \<Rightarrow> 'd api_state
   \<Rightarrow> (error \<times> 'd api_state) + 'd api_state" where
  "object_step env config grippers metric_names stable_pose overwrite obj_name s =
     for_each (gripper_step env config metric_names stable_pose overwrite obj_name)
       grippers s"

text \<open>\<^verbatim>\<open>compute_metrics\<close>, lines 660-700.  The configuration is the one that
  \<^verbatim>\<open>_get_config\<close> returns.\<close>

definition compute_metrics ::
  "('g, 'd, 'spec) collaborators \<Rightarrow> 'spec api_config \<Rightarrow> string option \<Rightarrow> string option
   \<Rightarrow> string option \<Rightarrow> string option \<Rightarrow> bool \<Rightarrow> 'd api_state
   \<Rightarrow> (error \<times> 'd api_state) + 'd api_state" where
  "compute_metrics env config metric_name object_name gripper_name stable_pose overwrite s =
     (if \<not> database_open s then Inl (RuntimeError, s)
      else if \<not> dataset_open s then Inl (RuntimeError, s)
      else
        let grippers = os_list_grippers env (gripper_dir config);
            objects = ds_object_keys env (dataset s)
        in
          if gripper_name \<noteq> None \<and> the gripper_name \<notin> set grippers then Inl (ValueError, s)
          else if object_name \<noteq> None \<and> the object_name \<notin> set objects then Inl (ValueError, s)
          else if metric_name \<noteq> None \<and> the metric_name \<notin> fst ` set (metrics config)
          then Inl (RuntimeError, s)
          else
            let grippers = (case gripper_name of None \<Rightarrow> grippers | Some g \<Rightarrow> [g]);
                objects = (case object_name of None \<Rightarrow> objects | Some obj \<Rightarrow> [obj]);
                metric_names =
                  (case metric_name of None \<Rightarrow> map fst (metrics config) | Some m \<Rightarrow> [m])
            in for_each (object_step env config grippers metric_names stable_pose overwrite)
                 objects s)"

text \<open>The (object, gripper name, metric) tuples in the order the three nested loops reach
  them.\<close>

definition tuples_of :: "string list \<Rightarrow> string list \<Rightarrow> string list
   \<Rightarrow> (string \<times> string \<times> string) list" where
  "tuples_of objects grippers metric_names =
     concat (map (\<lambda>obj_name. concat (map (\<lambda>gripper_name.
        map (\<lambda>metric. (obj_name, gripper_name, metric)) metric_names) grippers)) objects)"

section \<open>Traces of a pass\<close>

text \<open>An event is quiet when it neither persists a record nor flushes; \<open>extends_by P s s'\<close>
  says that the trace of \<open>s'\<close> is the trace of \<open>s\<close> followed by events that satisfy \<open>P\<close>.\<close>

definition quiet :: "event \<Rightarrow> bool" where
  "quiet e = (\<not> is_store e \<and> e \<noteq> Flush)"

definition extends_by :: "(event \<Rightarrow> bool) \<Rightarrow> 'd api_state \<Rightarrow> 'd api_state \<Rightarrow> bool" where
  "extends_by P s s' = (\<exists>evs. trace s' = trace s @ evs \<and> list_all P evs)"

text \<open>The outcome of a step started in state \<open>s\<close>, whether it raised or returned, extends
  the trace of \<open>s\<close> by events that satisfy \<open>P\<close>; \<open>proj\<close> extracts the state from the
  loop state.\<close>

definition outcome_extends ::
  "(event \<Rightarrow> bool) \<Rightarrow> ('st \<Rightarrow> 'd api_state) \<Rightarrow> 'd api_state
   \<Rightarrow> (error \<times> 'd api_state) + 'st \<Rightarrow> bool" where
  "outcome_extends P proj s r =
     (case r of Inl (e, s') \<Rightarrow> extends_by P s s' | Inr st \<Rightarrow> extends_by P s (proj st))"

text \<open>The events that a state has logged beyond those of an earlier state.\<close>

definition new_events :: "'d api_state \<Rightarrow> 'd api_state \<Rightarrow> event list" where
  "new_events s s' = drop (length (trace s)) (trace s')"

text \<open>The three nested loops of \<^verbatim>\<open>compute_metrics\<close> as one loop over the tuples.\<close>

definition run_tuples ::
  "('g, 'd, 'spec) collaborators \<Rightarrow> 'spec api_config \<Rightarrow> string option \<Rightarrow> bool
   \<Rightarrow> (string \<times> string \<times> string) list \<Rightarrow> 'd api_state
   \<Rightarrow> (error \<times> 'd api_state) + 'd api_state" where
  "run_tuples env config stable_pose overwrite tuples s =
     for_each (\<lambda>(obj_name, gripper_name, metric).
         tuple_step env config stable_pose overwrite obj_name
           (gr_load env gripper_name (gripper_dir config)) metric)
       tuples s"

text \<open>The tuples that \<^verbatim>\<open>compute_metrics\<close> iterates over for its optional metric, object and
  gripper names.\<close>

definition selected_tuples ::
  "('g, 'd, 'spec) collaborators \<Rightarrow> 'spec api_config \<Rightarrow> string option \<Rightarrow> string option
   \<Rightarrow> string option \<Rightarrow> 'd api_state \<Rightarrow> (string \<times> string \<times> string) list" where
  "selected_tuples env config metric_name object_name gripper_name s =
     tuples_of
       (case object_name of None \<Rightarrow> ds_object_keys env (dataset s) | Some obj \<Rightarrow> [obj])
       (case gripper_name of None \<Rightarrow> os_list_grippers env (gripper_dir config) | Some g \<Rightarrow> [g])
       (case metric_name of None \<Rightarrow> map fst (metrics config) | Some m \<Rightarrow> [m])"

section \<open>An example environment\<close>

text \<open>A small concrete instance of the collaborators, used to exercise the theorems below
  on concrete inputs.\<close>

definition demo_pose :: "string \<Rightarrow> vec3 \<Rightarrow> real \<Rightarrow> stable_pose" where
  "demo_pose i n p = \<lparr>sp_id = i, sp_r = Mat3 (Vec3 1 0 0) (Vec3 0 1 0) n, sp_p = p\<rparr>"

definition demo_poses :: "stable_pose list" where
  "demo_poses = [demo_pose ''pose1'' (Vec3 0 0 1) (1 / 2), demo_pose ''pose2'' (Vec3 0 1 0) (1 / 4),
     demo_pose ''pose3'' (Vec3 1 0 0) (1 / 4)]"

definition demo_skewed_poses :: "stable_pose list" where
  "demo_skewed_poses = [demo_pose ''pose1'' (Vec3 0 0 1) 1, demo_pose ''pose2'' (Vec3 0 1 0) 0,
     demo_pose ''pose3'' (Vec3 1 0 0) 0]"

definition demo_zero_poses :: "stable_pose list" where
  "demo_zero_poses = [demo_pose ''pose1'' (Vec3 0 0 1) 0, demo_pose ''pose2'' (Vec3 0 1 0) 0,
     demo_pose ''pose3'' (Vec3 1 0 0) 0]"

definition demo_config :: "string \<Rightarrow> metric_config" where
  "demo_config qm = \<lparr>quality_method = qm, max_approach_table_angle = 30, target_wrench = None,
     force_limits = None, finger_radius = None, inner_radius = None, height = None\<rparr>"

definition demo_obj :: graspable where
  "demo_obj = \<lparr>key = ''obj'', mass = 1\<rparr>"

definition demo_gripper :: gripper where
  "demo_gripper = \<lparr>g_name = ''gripper1'', g_type = ''parallel_jaw'', g_force_limit = 20,
     g_finger_radius = 1 / 100, g_inner_radius = None, g_height = Some (1 / 10)\<rparr>"

record demo_grasp =
  dg_id :: int
  dg_angle :: real
  dg_x_axis :: vec3

definition demo_grasp1 :: demo_grasp where
  "demo_grasp1 = \<lparr>dg_id = 1, dg_angle = 0, dg_x_axis = Vec3 0 0 (- 1)\<rparr>"

definition demo_grasp2 :: demo_grasp where
  "demo_grasp2 = \<lparr>dg_id = 2, dg_angle = pi / 2, dg_x_axis = Vec3 0 0 (- 1)\<rparr>"

definition demo_grasps :: "demo_grasp list" where
  "demo_grasps = [demo_grasp1, demo_grasp2]"

definition demo_quality :: "demo_grasp \<Rightarrow> error + real" where
  "demo_quality g = Inr (real_of_int (dg_id g) / 10)"

record demo_store =
  st_metrics :: "string list"
  st_values :: "int \<Rightarrow> (string \<rightharpoonup> real)"
  st_grasps :: "demo_grasp list"
  st_poses :: "stable_pose list"

definition demo_env :: "(demo_grasp, demo_store, metric_config) collaborators" where
  "demo_env = \<lparr>
     gravity_accel = 981 / 100,
     grasp_id = dg_id,
     grasp_perpendicular_table = (\<lambda>g sp. g),
     grasp_angles_from_stp_z = (\<lambda>g sp. (0, dg_angle g, 0)),
     grasp_x_axis = dg_x_axis,
     gqc_create_config = Inr,
     gqf_create_quality_function = (\<lambda>obj cfg. Inr demo_quality),
     gr_load = (\<lambda>n d. demo_gripper\<lparr>g_name := n\<rparr>),
     os_list_grippers = (\<lambda>d. [''gripper1'']),
     ds_object_keys = (\<lambda>d. [''obj'', ''bare'', ''last'']),
     ds_getitem = (\<lambda>d k. \<lparr>key = k, mass = 1\<rparr>),
     ds_has_grasps = (\<lambda>d k g. k \<noteq> ''bare'' \<and> st_grasps d \<noteq> []),
     ds_grasps = (\<lambda>d k g. st_grasps d),
     ds_stable_poses = (\<lambda>d k. st_poses d),
     ds_stable_pose = (\<lambda>d k i. case find (\<lambda>sp. sp_id sp = i) (st_poses d) of
                                  None \<Rightarrow> Inl KeyError | Some sp \<Rightarrow> Inr sp),
     ds_has_metric = (\<lambda>d n. n \<in> set (st_metrics d)),
     ds_create_metric = (\<lambda>n c d. d\<lparr>st_metrics := n # st_metrics d\<rparr>),
     ds_grasp_metrics = (\<lambda>d k g n. st_values d (dg_id g)),
     ds_delete_grasp_metrics =
       (\<lambda>k gs n g d. d\<lparr>st_values := (\<lambda>i. if i \<in> dg_id ` set gs then (st_values d i)(n := None)
                                          else st_values d i)\<rparr>),
     ds_store_grasp_metrics =
       (\<lambda>k gm g force d. d\<lparr>st_values := (\<lambda>i. case gm i of None \<Rightarrow> st_values d i
                              | Some m \<Rightarrow> if force then st_values d i ++ m
                                          else m ++ st_values d i)\<rparr>),
     db_flush = (\<lambda>d. d)\<rparr>"

definition demo_api_config :: "metric_config api_config" where
  "demo_api_config = \<lparr>max_stable_poses = 5, metric_display_rate = 1,
     delete_previous_metrics = False,
     metrics = [(''fc'', demo_config ''force_closure''),
                (''wr'', demo_config ''wrench_resistance'')],
     gripper_dir = ''grippers''\<rparr>"

definition demo_pose1 :: stable_pose where
  "demo_pose1 = demo_pose ''pose1'' (Vec3 0 0 1) 1"

definition demo_state :: "demo_store api_state" where
  "demo_state = \<lparr>database_open = True, dataset_open = True,
     dataset = \<lparr>st_metrics = [], st_values = (\<lambda>i. if i = 1 then [''fc'' \<mapsto> 3 / 4] else Map.empty),
                 st_grasps = demo_grasps, st_poses = [demo_pose1]\<rparr>,
     progress = 0, rng = [], trace = []\<rparr>"

section \<open>Properties of the gravity wrench\<close>

lemma gravity_wrench_entries:
  "gravity_wrench g obj (sp\<lparr>sp_r := Mat3 r0 r1 (Vec3 x y z)\<rparr>) =
     [mass obj * g * x, mass obj * g * y, mass obj * g * z, 0, 0, 0]"
  by (simp add: gravity_wrench_def Let_def)

text \<open>
  C4 as stated fails: with mass 1.0, g = 9.81 and table-contact normal [0,0,1] the code
  returns the force component [0,0,9.81], not [0,0,-9.81].
\<close>

theorem gravity_wrench_unit_mass_counterexample:
  "force_component
     (gravity_wrench (981 / 100) \<lparr>key = ''obj'', mass = 1\<rparr>
        \<lparr>sp_id = ''pose_0'', sp_r = Mat3 (Vec3 1 0 0) (Vec3 0 1 0) (Vec3 0 0 1), sp_p = 1\<rparr>)
   \<noteq> [0, 0, - (981 / 100)]"
  by (simp add: gravity_wrench_def force_component_def Let_def)

text \<open>
  C4 (amended): with mass 1.0, g = 9.81 and table-contact normal [0,0,1], whatever the other
  fields of the object and of the pose are, the gravity wrench is [0,0,9.81,0,0,0]: its force
  component is [0,0,9.81] (the sign of the resisting force), and the result is a function of
  the inputs alone.
\<close>

theorem gravity_wrench_unit_mass:
  "gravity_wrench (981 / 100) (obj\<lparr>mass := 1\<rparr>) (sp\<lparr>sp_r := Mat3 r0 r1 (Vec3 0 0 1)\<rparr>)
     = [0, 0, 981 / 100, 0, 0, 0]
   \<and> force_component
       (gravity_wrench (981 / 100) (obj\<lparr>mass := 1\<rparr>) (sp\<lparr>sp_r := Mat3 r0 r1 (Vec3 0 0 1)\<rparr>))
     = [0, 0, 981 / 100]"
  by (simp add: gravity_wrench_def force_component_def Let_def)

text \<open>
  C5: for every mass m and every stable pose whose orientation has row 2 equal to n = (x,y,z),
  the gravity wrench is the 6-vector (-(-m g n), 0, 0, 0): its force component is m g n and
  its torque is zero.  The function is total (no error case) and its value depends only on
  g, the mass and row 2 of the orientation.
\<close>

theorem gravity_wrench_value:
  "gravity_wrench g obj sp =
     map uminus (map (\<lambda>c. - (mass obj * g * c)) (vec3_list (row2 (sp_r sp)))) @ [0, 0, 0]
   \<and> force_component (gravity_wrench g obj sp)
       = map (\<lambda>c. mass obj * g * c) (vec3_list (row2 (sp_r sp)))
   \<and> torque_component (gravity_wrench g obj sp) = [0, 0, 0]
   \<and> length (gravity_wrench g obj sp) = 6"
  by (cases "row2 (sp_r sp)")
     (simp add: gravity_wrench_def force_component_def torque_component_def Let_def)

section \<open>Variant expansion\<close>

lemma add_gravity_wrenches_map:
  "add_gravity_wrenches g obj metric_name metric_config stable_poses (names, configs) =
     (names @ map (\<lambda>sp. metric_name @ ''_'' @ sp_id sp) stable_poses,
      configs @ map (\<lambda>sp. metric_config\<lparr>target_wrench := Some (gravity_wrench g obj sp)\<rparr>)
                  stable_poses)"
  by (induction stable_poses arbitrary: names configs) (simp_all add: Let_def)

lemma expand_variants_gravity:
  assumes "gravity_method (quality_method metric_config)"
  shows "expand_variants g obj stable_poses metric_name metric_config =
     map (\<lambda>sp. (metric_name @ ''_'' @ sp_id sp,
                 metric_config\<lparr>target_wrench := Some (gravity_wrench g obj sp)\<rparr>)) stable_poses"
  using assms
  by (simp add: expand_variants_def add_gravity_wrenches_map zip_map_map zip_same_conv_map)

lemma expand_variants_other:
  assumes "\<not> gravity_method (quality_method metric_config)"
  shows "expand_variants g obj stable_poses metric_name metric_config =
     [(metric_name, metric_config)]"
  using assms by (simp add: expand_variants_def)

text \<open>
  C1: for a metric whose quality method is one of the three gravity-dependent methods and a
  list of k stable poses, the expansion yields exactly k variants, the i-th named
  metric_pose.id for the i-th pose and carrying the configuration with its target wrench set
  to the gravity wrench of that pose; for any other quality method it yields exactly the one
  variant (metric name, configuration), unmodified.
\<close>

theorem variant_expansion:
  "(quality_method metric_config \<in> {''partial_closure'', ''wrench_resistance'',
        ''suction_wrench_resistance''} \<longrightarrow>
      length (expand_variants g obj stable_poses metric_name metric_config)
        = length stable_poses
      \<and> (\<forall>i < length stable_poses.
           expand_variants g obj stable_poses metric_name metric_config ! i =
             (metric_name @ ''_'' @ sp_id (stable_poses ! i),
              metric_config\<lparr>target_wrench :=
                 Some (gravity_wrench g obj (stable_poses ! i))\<rparr>)))
   \<and> (quality_method metric_config \<notin> {''partial_closure'', ''wrench_resistance'',
        ''suction_wrench_resistance''} \<longrightarrow>
      expand_variants g obj stable_poses metric_name metric_config
        = [(metric_name, metric_config)])"
proof -
  have m: "(quality_method metric_config \<in> {''partial_closure'', ''wrench_resistance'',
        ''suction_wrench_resistance''}) = gravity_method (quality_method metric_config)"
    by (simp add: gravity_method_def)
  show ?thesis
    unfolding m
    by (cases "gravity_method (quality_method metric_config)")
       (simp_all add: expand_variants_gravity expand_variants_other)
qed

theorem variant_expansion_witness:
  "quality_method (demo_config ''wrench_resistance'')
     \<in> {''partial_closure'', ''wrench_resistance'', ''suction_wrench_resistance''}
   \<and> length (expand_variants (981 / 100) demo_obj demo_poses ''m''
               (demo_config ''wrench_resistance'')) = 3
   \<and> expand_variants (981 / 100) demo_obj demo_poses ''m'' (demo_config ''wrench_resistance'') ! 1
       = (''m_pose2'',
          (demo_config ''wrench_resistance'')\<lparr>target_wrench := Some [0, 981 / 100, 0, 0, 0, 0]\<rparr>)
   \<and> quality_method (demo_config ''force_closure'')
       \<notin> {''partial_closure'', ''wrench_resistance'', ''suction_wrench_resistance''}
   \<and> expand_variants (981 / 100) demo_obj demo_poses ''m'' (demo_config ''force_closure'')
       = [(''m'', demo_config ''force_closure'')]"
  using variant_expansion [of "demo_config ''wrench_resistance''" "981 / 100" demo_obj
      demo_poses "''m''"]
    variant_expansion [of "demo_config ''force_closure''" "981 / 100" demo_obj demo_poses "''m''"]
  by (simp add: demo_config_def demo_poses_def demo_pose_def demo_obj_def gravity_wrench_def)

section \<open>Renormalisation and subsampling\<close>

lemma renormalize_nonzero:
  "sum_list p \<noteq> 0 \<Longrightarrow> renormalize p = map (\<lambda>x. Finite (x / sum_list p)) p"
  by (simp add: renormalize_def np_divide_def)

lemma renormalize_zero:
  "sum_list p = 0 \<Longrightarrow> renormalize p = replicate (length p) NonFinite"
  by (simp add: renormalize_def np_divide_def map_replicate_const)

lemma sum_list_divide: "sum_list (map (\<lambda>x. x / c) p) = sum_list p / (c::real)"
  by (induction p) (simp_all add: add_divide_distrib)

lemma renormalize_sum:
  "sum_list p \<noteq> 0 \<Longrightarrow> sum_list (map finite_val (renormalize p)) = 1"
  by (simp add: renormalize_nonzero comp_def sum_list_divide)

lemma renormalize_zero_sum:
  "sum_list p = 0 \<Longrightarrow> sum_list (map finite_val (renormalize p)) = 0"
  by (simp add: renormalize_zero sum_list_replicate)

lemma renormalize_all_finite:
  "list_all is_finite (renormalize p) = (sum_list p \<noteq> 0 \<or> p = [])"
  by (cases "sum_list p = 0") (auto simp: renormalize_nonzero renormalize_zero list_all_iff)

text \<open>
  C10: when there are more stable poses than the maximum, the subsampling divides each pose
  probability by the sum of the listed probabilities and hands the result to the weighted
  draw.  When the sum is nonzero every weight is the finite quotient and the weights sum to
  1; when the sum is zero every weight is non-finite (the division by zero is reached) and
  the weights do not sum to 1.  In particular, for more poses than the maximum with all
  probabilities 0, the draw is made with non-finite weights: no guard precedes it.
\<close>

theorem renormalization_well_defined:
  "(int (length stable_poses) > N \<longrightarrow>
      sample_stable_poses draw N stable_poses =
        random_choice draw stable_poses N
          (map (\<lambda>x. np_divide x (sum_list (map sp_p stable_poses))) (map sp_p stable_poses)))
   \<and> (sum_list p \<noteq> 0 \<longrightarrow>
        renormalize p = map (\<lambda>x. Finite (x / sum_list p)) p
        \<and> sum_list (map finite_val (renormalize p)) = 1)
   \<and> (sum_list p = 0 \<longrightarrow>
        renormalize p = replicate (length p) NonFinite
        \<and> sum_list (map finite_val (renormalize p)) \<noteq> 1)
   \<and> (int (length stable_poses) > N \<and> (\<forall>sp \<in> set stable_poses. sp_p sp = 0) \<longrightarrow>
        sample_stable_poses draw N stable_poses =
          random_choice draw stable_poses N (replicate (length stable_poses) NonFinite))"
proof -
  have zero: "sum_list (map sp_p stable_poses) = 0" if "\<forall>sp \<in> set stable_poses. sp_p sp = 0"
    using that by (induction stable_poses) simp_all
  have a: "int (length stable_poses) > N \<longrightarrow>
      sample_stable_poses draw N stable_poses =
        random_choice draw stable_poses N
          (map (\<lambda>x. np_divide x (sum_list (map sp_p stable_poses))) (map sp_p stable_poses))"
    by (simp add: sample_stable_poses_def Let_def renormalize_def)
  have b: "sum_list p \<noteq> 0 \<longrightarrow>
        renormalize p = map (\<lambda>x. Finite (x / sum_list p)) p
        \<and> sum_list (map finite_val (renormalize p)) = 1"
    using renormalize_nonzero [of p] renormalize_sum [of p] by blast
  have c: "sum_list p = 0 \<longrightarrow>
        renormalize p = replicate (length p) NonFinite
        \<and> sum_list (map finite_val (renormalize p)) \<noteq> 1"
    using renormalize_zero [of p] renormalize_zero_sum [of p] by simp
  have d: "int (length stable_poses) > N \<and> (\<forall>sp \<in> set stable_poses. sp_p sp = 0) \<longrightarrow>
        sample_stable_poses draw N stable_poses =
          random_choice draw stable_poses N (replicate (length stable_poses) NonFinite)"
    using renormalize_zero [of "map sp_p stable_poses"] zero
    by (simp add: sample_stable_poses_def Let_def)
  from a b c d show ?thesis by blast
qed

theorem renormalization_well_defined_witness:
  "int (length demo_zero_poses) > 2
   \<and> list_all (\<lambda>sp. sp_p sp = 0) demo_zero_poses
   \<and> sample_stable_poses [0, 1] 2 demo_zero_poses =
       random_choice [0, 1] demo_zero_poses 2 [NonFinite, NonFinite, NonFinite]
   \<and> sum_list [1 / 2, 1 / 4, 1 / 4 :: real] \<noteq> 0
   \<and> renormalize [1 / 2, 1 / 4, 1 / 4] = [Finite (1 / 2), Finite (1 / 4), Finite (1 / 4)]
   \<and> sum_list (map finite_val (renormalize [1 / 2, 1 / 4, 1 / 4])) = 1"
  using renormalization_well_defined [of 2 demo_zero_poses "[0, 1]" "[1 / 2, 1 / 4, 1 / 4]"]
  by (simp add: demo_zero_poses_def demo_pose_def np_divide_def renormalize_def)

lemma select_indices_props:
  assumes "distinct candidates" "n \<le> length candidates"
  shows "length (select_indices candidates draw n) = n
     \<and> distinct (select_indices candidates draw n)
     \<and> set (select_indices candidates draw n) \<subseteq> set candidates"
  using assms
proof (induction n arbitrary: candidates draw)
  case 0
  then show ?case by simp
next
  case (Suc n)
  then have ne: "candidates \<noteq> []" by auto
  define r where "r = (case draw of [] \<Rightarrow> 0 | r # _ \<Rightarrow> r)"
  define i where "i = candidates ! (r mod length candidates)"
  have i_in: "i \<in> set candidates"
    using ne by (simp add: i_def)
  have d': "distinct (remove1 i candidates)"
    using Suc.prems(1) by simp
  have l': "n \<le> length (remove1 i candidates)"
    using Suc.prems(2) i_in by (simp add: length_remove1)
  have s': "set (remove1 i candidates) = set candidates - {i}"
    using Suc.prems(1) by simp
  from Suc.IH [OF d' l', of "tl draw"] s'
  have "length (select_indices (remove1 i candidates) (tl draw) n) = n"
    and "distinct (select_indices (remove1 i candidates) (tl draw) n)"
    and "set (select_indices (remove1 i candidates) (tl draw) n) \<subseteq> set candidates - {i}"
    by auto
  moreover have "select_indices candidates draw (Suc n)
      = i # select_indices (remove1 i candidates) (tl draw) n"
    using ne by (simp add: Let_def r_def i_def)
  ultimately show ?case using i_in by auto
qed

lemma select_indices_reaches:
  assumes "distinct candidates" "distinct idxs" "set idxs \<subseteq> set candidates"
  shows "\<exists>draw. select_indices candidates draw (length idxs) = idxs"
  using assms
proof (induction idxs arbitrary: candidates)
  case Nil
  then show ?case by simp
next
  case (Cons i idxs)
  then have i_in: "i \<in> set candidates" and ne: "candidates \<noteq> []" by auto
  then obtain j where j: "j < length candidates" "candidates ! j = i"
    by (auto simp: in_set_conv_nth)
  have "distinct (remove1 i candidates)" using Cons.prems(1) by simp
  moreover have "distinct idxs" using Cons.prems(2) by simp
  moreover have "set idxs \<subseteq> set (remove1 i candidates)"
    using Cons.prems by auto
  ultimately obtain draw where
    d: "select_indices (remove1 i candidates) draw (length idxs) = idxs"
    using Cons.IH by blast
  have "select_indices candidates (j # draw) (length (i # idxs)) = i # idxs"
    using ne j d by (simp add: Let_def)
  then show ?case by blast
qed

lemma distinct_positive_indices: "distinct (positive_indices p)"
  by (simp add: positive_indices_def)

lemma set_positive_indices:
  "set (positive_indices p) = {i. i < length p \<and> positive (p ! i)}"
  by (auto simp: positive_indices_def)

lemma length_positive_indices:
  "length (positive_indices p) = length (filter positive p)"
proof -
  have "length (filter positive p) = card {i. i < length p \<and> positive (p ! i)}"
    by (rule length_filter_conv_card)
  also have "\<dots> = card (set (positive_indices p))"
    by (simp add: set_positive_indices)
  also have "\<dots> = length (positive_indices p)"
    by (rule distinct_card [OF distinct_positive_indices])
  finally show ?thesis by simp
qed

text \<open>Whatever the generator yields, the selected indices are a selection that the
  contract admits.\<close>

lemma select_indices_valid:
  assumes "\<not> choice_raises a sz p"
  shows "valid_draw (select_indices (positive_indices p) draw (nat sz)) a sz p"
proof -
  from assms have sz: "0 \<le> sz" and len: "length p = length a"
    and cnt: "nat sz \<le> length (positive_indices p)"
    by (auto simp: choice_raises_def length_positive_indices)
  from select_indices_props [OF distinct_positive_indices cnt, of draw] sz len
  show ?thesis
    by (auto simp: valid_draw_def list_all_iff set_positive_indices)
qed

text \<open>Each selection that the contract admits is made for some values of the generator.\<close>

lemma select_indices_complete:
  assumes "valid_draw idxs a sz p"
  shows "\<exists>draw. select_indices (positive_indices p) draw (nat sz) = idxs"
proof -
  from assms have "distinct idxs" "set idxs \<subseteq> set (positive_indices p)"
    and l: "nat sz = length idxs"
    by (auto simp: valid_draw_def list_all_iff set_positive_indices)
  with select_indices_reaches [OF distinct_positive_indices] show ?thesis
    unfolding l by blast
qed

lemma positive_renormalize:
  assumes "sum_list p \<noteq> 0" "\<forall>x \<in> set p. 0 \<le> x"
  shows "filter positive (renormalize p) = map (\<lambda>x. Finite (x / sum_list p)) (filter (\<lambda>x. 0 < x) p)"
proof -
  have "0 \<le> sum_list p" using assms(2) by (simp add: sum_list_nonneg)
  with assms(1) have pos: "0 < sum_list p" by simp
  have pt: "(0 < x / sum_list p) = (0 < x)" for x
    using pos by (auto simp: zero_less_divide_iff)
  show ?thesis
    by (simp add: renormalize_nonzero [OF assms(1)] filter_map comp_def pt)
qed

lemma negative_renormalize:
  assumes "sum_list p \<noteq> 0" "\<forall>x \<in> set p. 0 \<le> x"
  shows "\<not> list_ex negative (renormalize p)"
proof -
  have "0 \<le> sum_list p" using assms(2) by (simp add: sum_list_nonneg)
  with assms(1) have pos: "0 < sum_list p" by simp
  show ?thesis
    using assms(2)
    by (auto simp: renormalize_nonzero [OF assms(1)] list_ex_iff divide_less_0_iff pos
        less_imp_not_less [OF pos])
qed

lemma choice_raises_renormalize:
  assumes "\<forall>x \<in> set p. 0 \<le> x" "length a = length p" "N < int (length a)"
  shows "choice_raises a N (renormalize p) =
     (N < 0 \<or> sum_list p = 0 \<or> int (length (filter (\<lambda>x. 0 < x) p)) < N)"
proof (cases "sum_list p = 0")
  case True
  then show ?thesis
    using assms(2,3)
    by (cases "p = []") (simp_all add: choice_raises_def renormalize_all_finite atol_def)
next
  case False
  show ?thesis
    using assms(2,3) False
    by (simp add: choice_raises_def renormalize_all_finite negative_renormalize [OF False assms(1)]
        renormalize_sum [OF False] positive_renormalize [OF False assms(1)] atol_def
        renormalize_def [of p, THEN arg_cong, of length])
qed

lemma valid_draw_result:
  assumes "valid_draw draw a N p"
  shows "int (length (map (\<lambda>i. a ! i) draw)) = N \<and> set (map (\<lambda>i. a ! i) draw) \<subseteq> set a
     \<and> (distinct a \<longrightarrow> distinct (map (\<lambda>i. a ! i) draw))"
proof -
  from assms have len: "int (length draw) = N" and d: "distinct draw"
    and r: "\<forall>i \<in> set draw. i < length a"
    by (auto simp: valid_draw_def list_all_iff)
  have "distinct (map (\<lambda>i. a ! i) draw)" if "distinct a"
    using d r that by (auto simp: distinct_map inj_on_def nth_eq_iff_index_eq)
  with len r show ?thesis by auto
qed


lemma sample_stable_poses_more:
  assumes "N < int (length sps)"
  shows "sample_stable_poses draw N sps =
     (if choice_raises sps N (renormalize (map sp_p sps)) then Inl ValueError
      else Inr (map (\<lambda>i. sps ! i)
             (select_indices (positive_indices (renormalize (map sp_p sps))) draw (nat N))))"
  using assms by (simp add: sample_stable_poses_def Let_def random_choice_def)

lemma choice_raises_sample:
  assumes "\<forall>sp \<in> set sps. 0 \<le> sp_p sp" "N < int (length sps)"
  shows "choice_raises sps N (renormalize (map sp_p sps)) =
     (N < 0 \<or> sum_list (map sp_p sps) = 0 \<or> int (length (filter (\<lambda>sp. 0 < sp_p sp) sps)) < N)"
  using choice_raises_renormalize [of "map sp_p sps" sps N] assms
  by (simp add: filter_map comp_def)

lemma positive_renormalize_nth:
  assumes "\<forall>sp \<in> set sps. 0 \<le> sp_p sp" "sum_list (map sp_p sps) \<noteq> 0" "i < length sps"
    "positive (renormalize (map sp_p sps) ! i)"
  shows "0 < sp_p (sps ! i)"
proof -
  have "0 \<le> sum_list (map sp_p sps)" using assms(1) by (intro sum_list_nonneg) auto
  with assms(2) have pos: "0 < sum_list (map sp_p sps)" by simp
  from assms(3,4) have "0 < sp_p (sps ! i) / sum_list (map sp_p sps)"
    by (simp add: renormalize_nonzero [OF assms(2)])
  with pos show ?thesis by (simp add: zero_less_divide_iff)
qed

text \<open>
  C3 as stated fails: with three poses of probabilities 1, 0, 0 and a maximum of 2 the
  weighted draw without replacement has only one pose of positive weight to draw from and
  raises, so the sampler does not return 2 poses.  The outcome does not depend on the
  generator's draw.
\<close>

theorem stable_pose_sampler_counterexample:
  "int (length demo_skewed_poses) > 2
   \<and> sample_stable_poses [0, 1] 2 demo_skewed_poses = Inl ValueError"
  by (simp add: demo_skewed_poses_def demo_pose_def sample_stable_poses_def renormalize_def
      np_divide_def random_choice_def choice_raises_def Let_def)

text \<open>
  C3 (amended): a list of at most N stable poses is returned unchanged.  A longer list is
  renormalised and subsampled.  For non-negative probabilities the draw raises ValueError
  when N is negative, the probabilities sum to 0, or fewer than N poses have positive
  probability; otherwise the weights sum to 1 and, whatever the random generator yields,
  the sampler returns exactly N poses, taken at distinct positions of the input and each of
  positive probability.  Whenever the sampler returns it returns at most N poses, all from
  the input, and for a longer input exactly N of them, distinct when the input poses are
  distinct.  Every selection of N distinct positions of positive weight is returned for some
  values of the generator.
\<close>

theorem stable_pose_sampler:
  "(int (length stable_poses) \<le> N \<longrightarrow>
      sample_stable_poses draw N stable_poses = Inr stable_poses)
   \<and> (N < int (length stable_poses) \<and> (\<forall>sp \<in> set stable_poses. 0 \<le> sp_p sp)
        \<and> (N < 0 \<or> sum_list (map sp_p stable_poses) = 0
            \<or> int (length (filter (\<lambda>sp. 0 < sp_p sp) stable_poses)) < N) \<longrightarrow>
      sample_stable_poses draw N stable_poses = Inl ValueError)
   \<and> (N < int (length stable_poses) \<and> (\<forall>sp \<in> set stable_poses. 0 \<le> sp_p sp)
        \<and> 0 \<le> N \<and> sum_list (map sp_p stable_poses) \<noteq> 0
        \<and> N \<le> int (length (filter (\<lambda>sp. 0 < sp_p sp) stable_poses)) \<longrightarrow>
      sum_list (map finite_val (renormalize (map sp_p stable_poses))) = 1
      \<and> (\<exists>idxs. sample_stable_poses draw N stable_poses = Inr (map (\<lambda>i. stable_poses ! i) idxs)
            \<and> int (length idxs) = N \<and> distinct idxs
            \<and> (\<forall>i \<in> set idxs. i < length stable_poses \<and> 0 < sp_p (stable_poses ! i))))
   \<and> (\<forall>ys. sample_stable_poses draw N stable_poses = Inr ys \<longrightarrow>
          int (length ys) \<le> N \<and> set ys \<subseteq> set stable_poses
          \<and> (N < int (length stable_poses) \<longrightarrow>
                int (length ys) = N \<and> (distinct stable_poses \<longrightarrow> distinct ys)))
   \<and> (\<forall>idxs. N < int (length stable_poses)
          \<and> sample_stable_poses draw N stable_poses \<noteq> Inl ValueError
          \<and> valid_draw idxs stable_poses N (renormalize (map sp_p stable_poses)) \<longrightarrow>
          (\<exists>draw'. sample_stable_poses draw' N stable_poses
                     = Inr (map (\<lambda>i. stable_poses ! i) idxs)))"
proof -
  let ?w = "renormalize (map sp_p stable_poses)"
  let ?sel = "\<lambda>d. select_indices (positive_indices ?w) d (nat N)"
  have a: "int (length stable_poses) \<le> N \<longrightarrow>
      sample_stable_poses draw N stable_poses = Inr stable_poses"
    by (simp add: sample_stable_poses_def)
  have b: "N < int (length stable_poses) \<and> (\<forall>sp \<in> set stable_poses. 0 \<le> sp_p sp)
        \<and> (N < 0 \<or> sum_list (map sp_p stable_poses) = 0
            \<or> int (length (filter (\<lambda>sp. 0 < sp_p sp) stable_poses)) < N) \<longrightarrow>
      sample_stable_poses draw N stable_poses = Inl ValueError"
    using sample_stable_poses_more [of N stable_poses draw] choice_raises_sample [of stable_poses N]
    by auto
  have c: "sum_list (map finite_val ?w) = 1
      \<and> (\<exists>idxs. sample_stable_poses draw N stable_poses = Inr (map (\<lambda>i. stable_poses ! i) idxs)
            \<and> int (length idxs) = N \<and> distinct idxs
            \<and> (\<forall>i \<in> set idxs. i < length stable_poses \<and> 0 < sp_p (stable_poses ! i)))"
    if more: "N < int (length stable_poses)" and nn: "\<forall>sp \<in> set stable_poses. 0 \<le> sp_p sp"
      and ok: "0 \<le> N" "sum_list (map sp_p stable_poses) \<noteq> 0"
        "N \<le> int (length (filter (\<lambda>sp. 0 < sp_p sp) stable_poses))"
  proof -
    have nr: "\<not> choice_raises stable_poses N ?w"
      using choice_raises_sample [OF nn more] ok by auto
    then have r: "sample_stable_poses draw N stable_poses
        = Inr (map (\<lambda>i. stable_poses ! i) (?sel draw))"
      using sample_stable_poses_more [OF more, of draw] by simp
    from select_indices_valid [OF nr, of draw]
    have v: "valid_draw (?sel draw) stable_poses N ?w" .
    then have "int (length (?sel draw)) = N" "distinct (?sel draw)"
      and p: "\<forall>i \<in> set (?sel draw). i < length stable_poses \<and> positive (?w ! i)"
      by (auto simp: valid_draw_def list_all_iff)
    moreover have "\<forall>i \<in> set (?sel draw). i < length stable_poses \<and> 0 < sp_p (stable_poses ! i)"
      using p positive_renormalize_nth [OF nn ok(2)] by blast
    ultimately show ?thesis
      using r renormalize_sum [OF ok(2)] by blast
  qed
  have d: "int (length ys) \<le> N \<and> set ys \<subseteq> set stable_poses
          \<and> (N < int (length stable_poses) \<longrightarrow>
                int (length ys) = N \<and> (distinct stable_poses \<longrightarrow> distinct ys))"
    if r: "sample_stable_poses draw N stable_poses = Inr ys" for ys
  proof (cases "N < int (length stable_poses)")
    case False
    with r show ?thesis by (simp add: sample_stable_poses_def)
  next
    case True
    from r sample_stable_poses_more [OF True, of draw]
    have nr: "\<not> choice_raises stable_poses N ?w"
      and ys: "ys = map (\<lambda>i. stable_poses ! i) (?sel draw)"
      by (auto split: if_splits)
    from valid_draw_result [OF select_indices_valid [OF nr, of draw]] True
    show ?thesis unfolding ys by auto
  qed
  have e: "\<exists>draw'. sample_stable_poses draw' N stable_poses
                     = Inr (map (\<lambda>i. stable_poses ! i) idxs)"
    if more: "N < int (length stable_poses)"
      and nr: "sample_stable_poses draw N stable_poses \<noteq> Inl ValueError"
      and v: "valid_draw idxs stable_poses N ?w" for idxs
  proof -
    from nr sample_stable_poses_more [OF more, of draw]
    have nr': "\<not> choice_raises stable_poses N ?w" by (auto split: if_splits)
    from select_indices_complete [OF v] obtain draw' where "?sel draw' = idxs" by blast
    with nr' sample_stable_poses_more [OF more, of draw'] show ?thesis by auto
  qed
  from a b c d e show ?thesis by blast
qed


lemmas sampler_eval = sample_stable_poses_def renormalize_def np_divide_def random_choice_def
  choice_raises_def positive_indices_def atol_def Let_def

theorem stable_pose_sampler_witness:
  "int (length demo_poses) \<le> 5 \<and> sample_stable_poses [] 5 demo_poses = Inr demo_poses
   \<and> 2 < int (length demo_zero_poses) \<and> list_all (\<lambda>sp. 0 \<le> sp_p sp) demo_zero_poses
   \<and> sum_list (map sp_p demo_zero_poses) = 0
   \<and> sample_stable_poses [] 2 demo_zero_poses = Inl ValueError
   \<and> 2 < int (length demo_poses) \<and> list_all (\<lambda>sp. 0 \<le> sp_p sp) demo_poses
   \<and> sum_list (map sp_p demo_poses) \<noteq> 0
   \<and> 2 \<le> int (length (filter (\<lambda>sp. 0 < sp_p sp) demo_poses))
   \<and> distinct demo_poses
   \<and> sum_list (map finite_val (renormalize (map sp_p demo_poses))) = 1
   \<and> sample_stable_poses [2, 0] 2 demo_poses
       = Inr [demo_pose ''pose3'' (Vec3 1 0 0) (1 / 4), demo_pose ''pose1'' (Vec3 0 0 1) (1 / 2)]
   \<and> sample_stable_poses [0, 0, 0] 2 demo_poses
       = Inr [demo_pose ''pose1'' (Vec3 0 0 1) (1 / 2), demo_pose ''pose2'' (Vec3 0 1 0) (1 / 4)]
   \<and> sample_stable_poses [] 2 demo_poses
       = Inr [demo_pose ''pose1'' (Vec3 0 0 1) (1 / 2), demo_pose ''pose2'' (Vec3 0 1 0) (1 / 4)]
   \<and> valid_draw [1, 2] demo_poses 2 (renormalize (map sp_p demo_poses))
   \<and> (\<exists>draw'. sample_stable_poses draw' 2 demo_poses = Inr (map (\<lambda>i. demo_poses ! i) [1, 2]))"
proof -
  have l5: "int (length demo_poses) \<le> 5" and l2: "2 < int (length demo_poses)"
    and lz: "2 < int (length demo_zero_poses)"
    by (simp_all add: demo_poses_def demo_zero_poses_def)
  have nz: "\<forall>sp \<in> set demo_zero_poses. 0 \<le> sp_p sp"
    and sz: "sum_list (map sp_p demo_zero_poses) = 0"
    by (simp_all add: demo_zero_poses_def demo_pose_def)
  have nn: "\<forall>sp \<in> set demo_poses. 0 \<le> sp_p sp"
    and sn: "sum_list (map sp_p demo_poses) \<noteq> 0"
    and cnt: "2 \<le> int (length (filter (\<lambda>sp. 0 < sp_p sp) demo_poses))"
    and dist: "distinct demo_poses"
    by (simp_all add: demo_poses_def demo_pose_def)
  have e1: "sample_stable_poses [2, 0] 2 demo_poses
       = Inr [demo_pose ''pose3'' (Vec3 1 0 0) (1 / 4), demo_pose ''pose1'' (Vec3 0 0 1) (1 / 2)]"
    and e2: "sample_stable_poses [0, 0, 0] 2 demo_poses
       = Inr [demo_pose ''pose1'' (Vec3 0 0 1) (1 / 2), demo_pose ''pose2'' (Vec3 0 1 0) (1 / 4)]"
    and e3: "sample_stable_poses [] 2 demo_poses
       = Inr [demo_pose ''pose1'' (Vec3 0 0 1) (1 / 2), demo_pose ''pose2'' (Vec3 0 1 0) (1 / 4)]"
    by (simp_all add: demo_poses_def demo_pose_def sampler_eval upt_rec numeral_2_eq_2)
  have v: "valid_draw [1, 2] demo_poses 2 (renormalize (map sp_p demo_poses))"
    by (simp add: valid_draw_def demo_poses_def demo_pose_def renormalize_def np_divide_def)
  note t = stable_pose_sampler [of demo_poses _ "[]"]
  from t [of 5] l5 have c1: "sample_stable_poses [] 5 demo_poses = Inr demo_poses"
    by blast
  from stable_pose_sampler [of demo_zero_poses 2 "[]"] lz nz sz
  have c2: "sample_stable_poses [] 2 demo_zero_poses = Inl ValueError"
    by blast
  from t [of 2] l2 nn sn cnt
  have c3: "sum_list (map finite_val (renormalize (map sp_p demo_poses))) = 1"
    by simp
  from e3 have "sample_stable_poses [] 2 demo_poses \<noteq> Inl ValueError" by simp
  with t [of 2] l2 v
  have c4: "\<exists>draw'. sample_stable_poses draw' 2 demo_poses
                      = Inr (map (\<lambda>i. demo_poses ! i) [1, 2])"
    by blast
  from l5 c1 lz nz sz c2 l2 nn sn cnt dist c3 e1 e2 e3 v c4 show ?thesis
    by (simp add: list_all_iff)
qed

section \<open>The loop over the grasps\<close>

lemma recorded_record_quality [simp]:
  "recorded (record_quality gm gid name q) gid name = Some q"
  by (simp add: recorded_def record_quality_def)

lemma recorded_init_grasp_entry [simp]:
  "recorded (init_grasp_entry gm gid) i name = recorded gm i name"
  by (auto simp: recorded_def init_grasp_entry_def split: option.splits)

lemma record_quality_init [simp]:
  "record_quality (init_grasp_entry gm gid) gid name q = record_quality gm gid name q"
  by (auto simp: record_quality_def init_grasp_entry_def fun_eq_iff split: option.splits)

text \<open>The two branches of the loop body, with the progress update of lines 562-564 made
  explicit.\<close>

lemma grasp_step_gravity:
  assumes "gravity_method (quality_method metric_config)" "ind < length stable_poses"
    "metric_display_rate config \<noteq> 0"
  shows "grasp_step env obj gripper config overwrite stable_poses ind metric_name metric_config
           quality_fn n (k, grasp) (grasp_metrics, s) =
     (let s1 = (if int k mod metric_display_rate config = 0
                then s\<lparr>progress := (real k + 1) / real n\<rparr> else s);
          aligned_grasp = align_grasp env gripper grasp (stable_poses ! ind);
          gid = grasp_id env grasp
      in if perpendicular_table env metric_config aligned_grasp (stable_poses ! ind)
         then (case quality_fn aligned_grasp of
                 Inl e \<Rightarrow> Inl (e, log_event (QualityCall metric_name gid) s1)
               | Inr q \<Rightarrow> Inr (record_quality grasp_metrics gid metric_name q,
                               log_event (QualityCall metric_name gid) s1))
         else Inr (record_quality grasp_metrics gid metric_name 0, s1))"
  using assms by (simp add: grasp_step_def Let_def split: sum.splits)

lemma grasp_step_other:
  assumes "\<not> gravity_method (quality_method metric_config)"
    "metric_display_rate config \<noteq> 0"
  shows "grasp_step env obj gripper config overwrite stable_poses ind metric_name metric_config
           quality_fn n (k, grasp) (grasp_metrics, s) =
     (let s1 = (if int k mod metric_display_rate config = 0
                then s\<lparr>progress := (real k + 1) / real n\<rparr> else s);
          gid = grasp_id env grasp
      in if metric_name \<in> dom (ds_grasp_metrics env (dataset s) (key obj) grasp (g_name gripper))
            \<and> \<not> overwrite
         then Inr (init_grasp_entry grasp_metrics gid, s1)
         else (case quality_fn grasp of
                 Inl e \<Rightarrow> Inl (e, log_event (QualityCall metric_name gid) s1)
               | Inr q \<Rightarrow> Inr (record_quality grasp_metrics gid metric_name q,
                               log_event (QualityCall metric_name gid) s1)))"
  using assms by (simp add: grasp_step_def Let_def split: sum.splits)

lemma recorded_empty [simp]: "recorded Map.empty i name = None"
  by (simp add: recorded_def)

lemmas demo_defs = demo_env_def demo_api_config_def demo_state_def demo_grasps_def
  demo_grasp1_def demo_grasp2_def demo_config_def demo_obj_def demo_gripper_def demo_pose_def
  demo_pose1_def demo_quality_def

text \<open>
  C2: for a grasp evaluated against a gravity-dependent variant and its stable pose, with the
  grasp first re-aligned to the table plane exactly when the gripper type is parallel_jaw,
  the code's feasibility flag is true exactly when the absolute approach-table angle is
  below max_approach_table_angle converted to radians and the dot product of the pose's
  table-contact normal with the grasp's x axis is negative.  When infeasible, the quality
  recorded for (grasp, variant) is 0 and the quality function is not called (the trace is
  unchanged); when feasible, the quality function is called once on the aligned grasp and
  its quality is recorded.  The display rate is assumed nonzero and the variant's pose
  index in range.
\<close>

theorem feasibility_gate:
  assumes "quality_method metric_config
             \<in> {''partial_closure'', ''wrench_resistance'', ''suction_wrench_resistance''}"
    and "ind < length stable_poses"
    and "metric_display_rate config \<noteq> 0"
  shows
    "(let stable_pose = stable_poses ! ind;
          aligned_grasp = (if g_type gripper = ''parallel_jaw''
                           then grasp_perpendicular_table env grasp stable_pose else grasp);
          feasible =
            (\<bar>fst (snd (grasp_angles_from_stp_z env aligned_grasp stable_pose))\<bar>
               < max_approach_table_angle metric_config * pi / 180
             \<and> dot3 (row2 (sp_r stable_pose)) (grasp_x_axis env aligned_grasp) < 0);
          gid = grasp_id env grasp;
          result = grasp_step env obj gripper config overwrite stable_poses ind metric_name
                     metric_config quality_fn n (k, grasp) (grasp_metrics, s)
      in perpendicular_table env metric_config aligned_grasp stable_pose = feasible
         \<and> (\<not> feasible \<longrightarrow>
              (\<exists>gm' s'. result = Inr (gm', s') \<and> recorded gm' gid metric_name = Some 0
                 \<and> trace s' = trace s))
         \<and> (feasible \<longrightarrow>
              (\<forall>q. quality_fn aligned_grasp = Inr q \<longrightarrow>
                 (\<exists>gm' s'. result = Inr (gm', s') \<and> recorded gm' gid metric_name = Some q
                    \<and> trace s' = trace s @ [QualityCall metric_name gid]))
              \<and> (\<forall>e. quality_fn aligned_grasp = Inl e \<longrightarrow>
                 (\<exists>s'. result = Inl (e, s')
                    \<and> trace s' = trace s @ [QualityCall metric_name gid]))))"
proof -
  have g: "gravity_method (quality_method metric_config)"
    using assms(1) by (simp add: gravity_method_def)
  show ?thesis
    unfolding Let_def grasp_step_gravity [OF g assms(2,3), unfolded Let_def]
    by (auto simp: perpendicular_table_def align_grasp_def deg2rad_def log_event_def Let_def)
qed



theorem feasibility_gate_witness:
  "quality_method (demo_config ''wrench_resistance'')
     \<in> {''partial_closure'', ''wrench_resistance'', ''suction_wrench_resistance''}
   \<and> (0::nat) < length [demo_pose1]
   \<and> metric_display_rate demo_api_config \<noteq> 0
   \<and> g_type demo_gripper = ''parallel_jaw''
   \<and> \<not> \<bar>fst (snd (grasp_angles_from_stp_z demo_env
                 (grasp_perpendicular_table demo_env demo_grasp2 demo_pose1) demo_pose1))\<bar>
         < max_approach_table_angle (demo_config ''wrench_resistance'') * pi / 180
   \<and> (\<exists>gm' s'.
         grasp_step demo_env demo_obj demo_gripper demo_api_config True [demo_pose1] 0
           ''wr_pose1'' (demo_config ''wrench_resistance'') demo_quality 2 (1, demo_grasp2)
           (Map.empty, demo_state) = Inr (gm', s')
         \<and> recorded gm' 2 ''wr_pose1'' = Some 0 \<and> trace s' = trace demo_state)
   \<and> (\<exists>gm' s'.
         grasp_step demo_env demo_obj demo_gripper demo_api_config True [demo_pose1] 0
           ''wr_pose1'' (demo_config ''wrench_resistance'') demo_quality 2 (0, demo_grasp1)
           (Map.empty, demo_state) = Inr (gm', s')
         \<and> recorded gm' 1 ''wr_pose1'' = Some (1 / 10)
         \<and> trace s' = trace demo_state @ [QualityCall ''wr_pose1'' 1])"
proof -
  have h1: "quality_method (demo_config ''wrench_resistance'')
     \<in> {''partial_closure'', ''wrench_resistance'', ''suction_wrench_resistance''}"
    by (simp add: demo_config_def)
  have h2: "(0::nat) < length [demo_pose1]" by simp
  have h3: "metric_display_rate demo_api_config \<noteq> 0" by (simp add: demo_api_config_def)
  have jaw: "g_type demo_gripper = ''parallel_jaw''" by (simp add: demo_gripper_def)
  have al: "grasp_perpendicular_table demo_env g demo_pose1 = g" for g
    by (simp add: demo_env_def)
  have a2: "\<not> \<bar>fst (snd (grasp_angles_from_stp_z demo_env demo_grasp2 demo_pose1))\<bar>
         < max_approach_table_angle (demo_config ''wrench_resistance'') * pi / 180"
    by (simp add: demo_defs)
  have a1: "\<bar>fst (snd (grasp_angles_from_stp_z demo_env demo_grasp1 demo_pose1))\<bar>
         < max_approach_table_angle (demo_config ''wrench_resistance'') * pi / 180"
    by (simp add: demo_defs)
  have d1: "dot3 (row2 (sp_r demo_pose1)) (grasp_x_axis demo_env demo_grasp1) < 0"
    by (simp add: demo_defs)
  have q1: "demo_quality demo_grasp1 = Inr (1 / 10)" by (simp add: demo_defs)
  have g1: "grasp_id demo_env demo_grasp1 = 1" and g2: "grasp_id demo_env demo_grasp2 = 2"
    by (simp_all add: demo_defs)
  note inst = feasibility_gate [OF h1 h2 h3, where gripper = demo_gripper and env = demo_env
      and obj = demo_obj and overwrite = True and metric_name = "''wr_pose1''"
      and quality_fn = demo_quality and n = 2 and grasp_metrics = Map.empty and s = demo_state,
      unfolded Let_def]
  from inst [where grasp = demo_grasp2 and k = 1] inst [where grasp = demo_grasp1 and k = 0]
  show ?thesis
    using h1 h3 a1 a2 d1 by (simp add: jaw al q1 g1 g2)
qed

text \<open>
  C7: for a metric with a non-gravity quality method, if the metric name is among the
  grasp's stored metrics and overwrite is disabled, the quality function is not called, no
  value is recorded (every recorded value is as before), and the loop continues with the
  next grasp; otherwise the quality function is called on the grasp and its quality is
  recorded under (grasp id, metric name).  For a gravity-dependent variant the step does
  not depend on the stored metrics nor on overwrite, and whenever it returns a value is
  recorded.  The display rate is assumed nonzero.
\<close>

theorem skip_existing_metric:
  assumes "metric_display_rate config \<noteq> 0"
  shows
    "(let gravity = (quality_method metric_config
                      \<in> {''partial_closure'', ''wrench_resistance'', ''suction_wrench_resistance''});
          existing_metrics = ds_grasp_metrics env (dataset s) (key obj) grasp (g_name gripper);
          gid = grasp_id env grasp;
          step = grasp_step env obj gripper config overwrite stable_poses ind metric_name
                   metric_config quality_fn n;
          result = step (k, grasp) (grasp_metrics, s)
      in (\<not> gravity \<and> metric_name \<in> dom existing_metrics \<and> \<not> overwrite \<longrightarrow>
            (\<exists>gm' s'. result = Inr (gm', s')
               \<and> trace s' = trace s \<and> dataset s' = dataset s
               \<and> (\<forall>i name. recorded gm' i name = recorded grasp_metrics i name)
               \<and> for_each step ((k, grasp) # rest) (grasp_metrics, s)
                   = for_each step rest (gm', s')))
         \<and> (\<not> gravity \<and> \<not> (metric_name \<in> dom existing_metrics \<and> \<not> overwrite) \<longrightarrow>
              (\<forall>q. quality_fn grasp = Inr q \<longrightarrow>
                 (\<exists>gm' s'. result = Inr (gm', s') \<and> recorded gm' gid metric_name = Some q
                    \<and> trace s' = trace s @ [QualityCall metric_name gid]))
              \<and> (\<forall>e. quality_fn grasp = Inl e \<longrightarrow>
                 (\<exists>s'. result = Inl (e, s')
                    \<and> trace s' = trace s @ [QualityCall metric_name gid])))
         \<and> (gravity \<and> ind < length stable_poses \<longrightarrow>
              result = grasp_step (env\<lparr>ds_grasp_metrics := other_metrics\<rparr>) obj gripper config
                         other_overwrite stable_poses ind metric_name metric_config quality_fn n
                         (k, grasp) (grasp_metrics, s)
              \<and> (\<forall>gm' s'. result = Inr (gm', s') \<longrightarrow>
                    recorded gm' gid metric_name \<noteq> None)))"
proof -
  have m: "(quality_method metric_config \<in> {''partial_closure'', ''wrench_resistance'',
        ''suction_wrench_resistance''}) = gravity_method (quality_method metric_config)"
    by (simp add: gravity_method_def)
  show ?thesis
  proof (cases "gravity_method (quality_method metric_config)")
    case True
    have "perpendicular_table (env\<lparr>ds_grasp_metrics := other_metrics\<rparr>) = perpendicular_table env"
      by (simp add: perpendicular_table_def fun_eq_iff)
    moreover have "align_grasp (env\<lparr>ds_grasp_metrics := other_metrics\<rparr>) = align_grasp env"
      by (simp add: align_grasp_def fun_eq_iff)
    ultimately show ?thesis
      unfolding m Let_def using True assms
      by (auto simp: grasp_step_gravity Let_def split: sum.splits)
  next
    case False
    show ?thesis
      unfolding m Let_def using False assms
      by (auto simp: grasp_step_other Let_def log_event_def split: sum.splits)
  qed
qed



theorem skip_existing_metric_witness:
  "metric_display_rate demo_api_config \<noteq> 0
   \<and> quality_method (demo_config ''force_closure'')
       \<notin> {''partial_closure'', ''wrench_resistance'', ''suction_wrench_resistance''}
   \<and> ''fc'' \<in> dom (ds_grasp_metrics demo_env (dataset demo_state) (key demo_obj) demo_grasp1
                      (g_name demo_gripper))
   \<and> (\<exists>gm' s'.
         grasp_step demo_env demo_obj demo_gripper demo_api_config False [] 0 ''fc''
           (demo_config ''force_closure'') demo_quality 2 (0, demo_grasp1)
           (Map.empty, demo_state) = Inr (gm', s')
         \<and> trace s' = trace demo_state \<and> recorded gm' 1 ''fc'' = None)
   \<and> ''fc'' \<notin> dom (ds_grasp_metrics demo_env (dataset demo_state) (key demo_obj) demo_grasp2
                      (g_name demo_gripper))
   \<and> (\<exists>gm' s'.
         grasp_step demo_env demo_obj demo_gripper demo_api_config False [] 0 ''fc''
           (demo_config ''force_closure'') demo_quality 2 (1, demo_grasp2)
           (Map.empty, demo_state) = Inr (gm', s')
         \<and> recorded gm' 2 ''fc'' = Some (1 / 5)
         \<and> trace s' = trace demo_state @ [QualityCall ''fc'' 2])
   \<and> quality_method (demo_config ''wrench_resistance'')
       \<in> {''partial_closure'', ''wrench_resistance'', ''suction_wrench_resistance''}
   \<and> (0::nat) < length [demo_pose1]
   \<and> grasp_step demo_env demo_obj demo_gripper demo_api_config False [demo_pose1] 0
        ''wr_pose1'' (demo_config ''wrench_resistance'') demo_quality 2 (0, demo_grasp1)
        (Map.empty, demo_state)
      = grasp_step (demo_env\<lparr>ds_grasp_metrics := (\<lambda>d k g n. [''wr_pose1'' \<mapsto> 1])\<rparr>) demo_obj
          demo_gripper demo_api_config True [demo_pose1] 0 ''wr_pose1''
          (demo_config ''wrench_resistance'') demo_quality 2 (0, demo_grasp1)
          (Map.empty, demo_state)"
proof -
  have h1: "metric_display_rate demo_api_config \<noteq> 0" by (simp add: demo_api_config_def)
  have h2: "quality_method (demo_config ''force_closure'')
       \<notin> {''partial_closure'', ''wrench_resistance'', ''suction_wrench_resistance''}"
    by (simp add: demo_config_def)
  have h3: "''fc'' \<in> dom (ds_grasp_metrics demo_env (dataset demo_state) (key demo_obj)
                      demo_grasp1 (g_name demo_gripper))"
    by (simp add: demo_defs)
  have h4: "''fc'' \<notin> dom (ds_grasp_metrics demo_env (dataset demo_state) (key demo_obj)
                      demo_grasp2 (g_name demo_gripper))"
    by (simp add: demo_defs)
  have h5: "quality_method (demo_config ''wrench_resistance'')
       \<in> {''partial_closure'', ''wrench_resistance'', ''suction_wrench_resistance''}"
    by (simp add: demo_config_def)
  have h6: "(0::nat) < length [demo_pose1]" by simp
  have q2: "demo_quality demo_grasp2 = Inr (1 / 5)" by (simp add: demo_defs)
  have g1: "grasp_id demo_env demo_grasp1 = 1" and g2: "grasp_id demo_env demo_grasp2 = 2"
    by (simp_all add: demo_defs)
  note inst = skip_existing_metric [OF h1, where env = demo_env and s = demo_state
      and obj = demo_obj and gripper = demo_gripper and overwrite = False
      and quality_fn = demo_quality and n = 2 and grasp_metrics = Map.empty and rest = "[]"
      and ind = 0, unfolded Let_def]
  have c1: "\<exists>gm' s'.
         grasp_step demo_env demo_obj demo_gripper demo_api_config False [] 0 ''fc''
           (demo_config ''force_closure'') demo_quality 2 (0, demo_grasp1)
           (Map.empty, demo_state) = Inr (gm', s')
         \<and> trace s' = trace demo_state
         \<and> (\<forall>i name. recorded gm' i name = recorded Map.empty i name)"
    using inst [where metric_config = "demo_config ''force_closure''" and grasp = demo_grasp1
      and stable_poses = "[]" and metric_name = "''fc''" and k = 0] h2 h3
    by blast
  have c2: "\<exists>gm' s'.
         grasp_step demo_env demo_obj demo_gripper demo_api_config False [] 0 ''fc''
           (demo_config ''force_closure'') demo_quality 2 (1, demo_grasp2)
           (Map.empty, demo_state) = Inr (gm', s')
         \<and> recorded gm' (grasp_id demo_env demo_grasp2) ''fc'' = Some (1 / 5)
         \<and> trace s' = trace demo_state
              @ [QualityCall ''fc'' (grasp_id demo_env demo_grasp2)]"
    using inst [where metric_config = "demo_config ''force_closure''" and grasp = demo_grasp2
      and stable_poses = "[]" and metric_name = "''fc''" and k = 1] h2 h4 q2
    by blast
  have c3: "grasp_step demo_env demo_obj demo_gripper demo_api_config False [demo_pose1] 0
        ''wr_pose1'' (demo_config ''wrench_resistance'') demo_quality 2 (0, demo_grasp1)
        (Map.empty, demo_state)
      = grasp_step (demo_env\<lparr>ds_grasp_metrics := (\<lambda>d k g n. [''wr_pose1'' \<mapsto> 1])\<rparr>) demo_obj
          demo_gripper demo_api_config True [demo_pose1] 0 ''wr_pose1''
          (demo_config ''wrench_resistance'') demo_quality 2 (0, demo_grasp1)
          (Map.empty, demo_state)"
    using inst [where metric_config = "demo_config ''wrench_resistance''" and grasp = demo_grasp1
      and stable_poses = "[demo_pose1]" and metric_name = "''wr_pose1''" and k = 0
      and other_metrics = "\<lambda>d k g n. [''wr_pose1'' \<mapsto> 1]" and other_overwrite = True] h5 h6
    by blast
  from c1 have c1': "\<exists>gm' s'.
         grasp_step demo_env demo_obj demo_gripper demo_api_config False [] 0 ''fc''
           (demo_config ''force_closure'') demo_quality 2 (0, demo_grasp1)
           (Map.empty, demo_state) = Inr (gm', s')
         \<and> trace s' = trace demo_state \<and> recorded gm' 1 ''fc'' = None"
    by auto
  from h1 h2 h3 h4 h5 c1' c2 [unfolded g2] c3 show ?thesis
    by simp
qed

section \<open>The trace of a pass\<close>

lemma extends_by_refl [simp]: "extends_by P s s"
  by (simp add: extends_by_def)

lemma extends_by_trans:
  "extends_by P s s' \<Longrightarrow> extends_by P s' s'' \<Longrightarrow> extends_by P s s''"
  by (auto simp: extends_by_def)

lemma extends_by_update [simp]:
  "extends_by P s (s'\<lparr>progress := x\<rparr>) = extends_by P s s'"
  "extends_by P s (s'\<lparr>dataset := d\<rparr>) = extends_by P s s'"
  "extends_by P s (s'\<lparr>rng := r\<rparr>) = extends_by P s s'"
  by (simp_all add: extends_by_def)

lemma extends_by_log: "P e \<Longrightarrow> extends_by P s s' \<Longrightarrow> extends_by P s (log_event e s')"
  by (auto simp: extends_by_def log_event_def)

lemma for_each_extends:
  assumes "\<And>x st. x \<in> set xs \<Longrightarrow> outcome_extends P proj (proj st) (body x st)"
  shows "outcome_extends P proj (proj st) (for_each body xs st)"
  using assms
proof (induction xs arbitrary: st)
  case Nil
  then show ?case by (simp add: outcome_extends_def)
next
  case (Cons x xs)
  show ?case
  proof (cases "body x st")
    case (Inl err)
    with Cons.prems [of x st] show ?thesis by simp
  next
    case (Inr st')
    from Cons.prems [of x st] Inr have 1: "extends_by P (proj st) (proj st')"
      by (simp add: outcome_extends_def)
    have 2: "outcome_extends P proj (proj st') (for_each body xs st')"
      using Cons.IH Cons.prems by simp
    from 1 2 Inr show ?thesis
      by (auto simp: outcome_extends_def split: sum.splits intro: extends_by_trans)
  qed
qed

lemma grasp_step_quiet:
  "outcome_extends quiet snd s
     (grasp_step env obj gripper config overwrite stable_poses ind metric_name metric_config
        quality_fn n kg (grasp_metrics, s))"
  by (cases kg)
     (auto simp: grasp_step_def outcome_extends_def Let_def quiet_def
        intro!: extends_by_log split: sum.splits)

lemma variant_step_quiet:
  "outcome_extends quiet (\<lambda>st. snd (snd st)) s
     (variant_step env obj gripper config overwrite stable_poses grasps variant
        (ind, grasp_metrics, s))"
proof -
  obtain metric_name metric_config where v: "variant = (metric_name, metric_config)"
    by (cases variant)
  define s1 where "s1 = (if \<not> ds_has_metric env (dataset s) metric_name
               then log_event (CreateMetric metric_name)
                      (s\<lparr>dataset := ds_create_metric env metric_name metric_config (dataset s)\<rparr>)
               else s)"
  have e1: "extends_by quiet s s1"
    by (auto simp: s1_def quiet_def intro!: extends_by_log)
  have loop: "outcome_extends quiet snd s1
     (for_each (grasp_step env obj gripper config overwrite stable_poses ind metric_name
                  cfg quality_fn (length grasps)) (enumerate 0 grasps) (grasp_metrics, s1))"
    for cfg quality_fn
    using for_each_extends [where proj = snd and st = "(grasp_metrics, s1)" and P = quiet]
      grasp_step_quiet
    by (metis prod.collapse snd_conv)
  have eq: "variant_step env obj gripper config overwrite stable_poses grasps variant
        (ind, grasp_metrics, s) =
     (case gqf_create_quality_function env obj (add_gripper_params gripper metric_config) of
        Inl e \<Rightarrow> Inl (e, s1)
      | Inr quality_fn \<Rightarrow>
          (case for_each
                  (grasp_step env obj gripper config overwrite stable_poses ind metric_name
                     (add_gripper_params gripper metric_config) quality_fn (length grasps))
                  (enumerate 0 grasps) (grasp_metrics, s1) of
             Inl e \<Rightarrow> Inl e
           | Inr (grasp_metrics, s') \<Rightarrow> Inr (ind + 1, grasp_metrics, s')))"
    unfolding s1_def variant_step_def v Let_def by simp
  show ?thesis
  proof (cases "gqf_create_quality_function env obj (add_gripper_params gripper metric_config)")
    case (Inl e)
    with e1 show ?thesis by (simp add: eq outcome_extends_def)
  next
    case (Inr quality_fn)
    from loop [of "add_gripper_params gripper metric_config" quality_fn] e1 Inr
    show ?thesis
      by (auto simp: eq outcome_extends_def split: sum.splits intro: extends_by_trans)
  qed
qed


lemma metric_step_quiet:
  "outcome_extends quiet snd s
     (metric_step env obj gripper config overwrite stable_poses grasps metric (grasp_metrics, s))"
proof -
  obtain metric_name metric_spec where m: "metric = (metric_name, metric_spec)"
    by (cases metric)
  show ?thesis
  proof (cases "gqc_create_config env metric_spec")
    case (Inl e)
    then show ?thesis by (simp add: metric_step_def m outcome_extends_def)
  next
    case (Inr metric_config)
    define s1 where "s1 = (if delete_previous_metrics config
                      then log_event
                             (DeleteGraspMetrics (key obj) metric_name (g_name gripper))
                             (s\<lparr>dataset := ds_delete_grasp_metrics env (key obj) grasps
                                              metric_name (g_name gripper) (dataset s)\<rparr>)
                      else s)"
    have e1: "extends_by quiet s s1"
      by (auto simp: s1_def quiet_def intro!: extends_by_log)
    have eq: "metric_step env obj gripper config overwrite stable_poses grasps metric
        (grasp_metrics, s) =
      (case for_each (variant_step env obj gripper config overwrite stable_poses grasps)
              (expand_variants (gravity_accel env) obj stable_poses metric_name metric_config)
              (0, grasp_metrics, s1) of
         Inl e \<Rightarrow> Inl e
       | Inr (ind, grasp_metrics, s') \<Rightarrow> Inr (grasp_metrics, s'))"
      unfolding s1_def metric_step_def m Let_def using Inr by simp
    have loop: "outcome_extends quiet (\<lambda>st. snd (snd st)) s1
      (for_each (variant_step env obj gripper config overwrite stable_poses grasps)
              (expand_variants (gravity_accel env) obj stable_poses metric_name metric_config)
              (0, grasp_metrics, s1))"
      using for_each_extends [where proj = "\<lambda>st. snd (snd st)" and st = "(0, grasp_metrics, s1)"
          and P = quiet and body = "variant_step env obj gripper config overwrite stable_poses grasps"]
        variant_step_quiet [where env = env and obj = obj and gripper = gripper
          and config = config and overwrite = overwrite and stable_poses = stable_poses
          and grasps = grasps]
      by (metis prod.collapse snd_conv)
    from loop e1 show ?thesis
      by (auto simp: eq outcome_extends_def split: sum.splits intro: extends_by_trans)
  qed
qed

lemma load_stable_poses_quiet:
  "outcome_extends quiet snd s (load_stable_poses env obj config stable_pose_id s)"
  by (auto simp: load_stable_poses_def outcome_extends_def split: sum.splits option.splits)

lemma metrics_loop_quiet:
  "outcome_extends quiet snd s
     (for_each (metric_step env obj gripper config overwrite stable_poses grasps) ms
        (grasp_metrics, s))"
  using for_each_extends [where proj = snd and st = "(grasp_metrics, s)" and P = quiet
      and body = "metric_step env obj gripper config overwrite stable_poses grasps"]
    metric_step_quiet [where env = env and obj = obj and gripper = gripper
      and config = config and overwrite = overwrite and stable_poses = stable_poses
      and grasps = grasps]
  by (metis prod.collapse snd_conv)

text \<open>The shape of a pass: loading the poses, the loop over the metrics, one store.\<close>

lemma compute_metrics_pass_Inr:
  assumes "compute_metrics_pass env obj gripper config stable_pose_id metric_name overwrite s
             = Inr s'"
  shows "\<exists>stable_poses s1 grasp_metrics s2.
           load_stable_poses env obj config stable_pose_id s = Inr (stable_poses, s1)
           \<and> for_each (metric_step env obj gripper config overwrite stable_poses
                          (ds_grasps env (dataset s) (key obj) (g_name gripper)))
                 (select_metrics config metric_name) (Map.empty, s1) = Inr (grasp_metrics, s2)
           \<and> s' = log_event (StoreGraspMetrics (key obj) grasp_metrics (g_name gripper) True)
                    (s2\<lparr>dataset := ds_store_grasp_metrics env (key obj) grasp_metrics
                                       (g_name gripper) True (dataset s2)\<rparr>)
           \<and> extends_by quiet s s2"
proof -
  from assms obtain stable_poses s1 where
    l: "load_stable_poses env obj config stable_pose_id s = Inr (stable_poses, s1)"
    by (auto simp: compute_metrics_pass_def Let_def split: sum.splits)
  from assms l obtain grasp_metrics s2 where
    f: "for_each (metric_step env obj gripper config overwrite stable_poses
                          (ds_grasps env (dataset s) (key obj) (g_name gripper)))
                 (select_metrics config metric_name) (Map.empty, s1) = Inr (grasp_metrics, s2)"
    by (auto simp: compute_metrics_pass_def Let_def split: sum.splits)
  from assms l f have
    s': "s' = log_event (StoreGraspMetrics (key obj) grasp_metrics (g_name gripper) True)
                    (s2\<lparr>dataset := ds_store_grasp_metrics env (key obj) grasp_metrics
                                       (g_name gripper) True (dataset s2)\<rparr>)"
    by (simp add: compute_metrics_pass_def Let_def)
  have "extends_by quiet s s1"
    using load_stable_poses_quiet [of s env obj config stable_pose_id] l
    by (simp add: outcome_extends_def)
  moreover have "extends_by quiet s1 s2"
    using metrics_loop_quiet [of s1 env obj gripper config overwrite stable_poses
        "ds_grasps env (dataset s) (key obj) (g_name gripper)" "select_metrics config metric_name"
        Map.empty] f
    by (simp add: outcome_extends_def)
  ultimately have "extends_by quiet s s2" by (rule extends_by_trans)
  with l f s' show ?thesis by blast
qed

lemma compute_metrics_pass_Inl:
  assumes "compute_metrics_pass env obj gripper config stable_pose_id metric_name overwrite s
             = Inl (e, s')"
  shows "extends_by quiet s s'"
proof (cases "load_stable_poses env obj config stable_pose_id s")
  case (Inl a)
  with assms load_stable_poses_quiet [of s env obj config stable_pose_id] show ?thesis
    by (auto simp: compute_metrics_pass_def Let_def outcome_extends_def)
next
  case (Inr b)
  obtain stable_poses s1 where b: "b = (stable_poses, s1)" by (cases b)
  have 1: "extends_by quiet s s1"
    using load_stable_poses_quiet [of s env obj config stable_pose_id] Inr b
    by (simp add: outcome_extends_def)
  have 2: "outcome_extends quiet snd s1
     (for_each (metric_step env obj gripper config overwrite stable_poses
                  (ds_grasps env (dataset s) (key obj) (g_name gripper)))
        (select_metrics config metric_name) (Map.empty, s1))"
    by (rule metrics_loop_quiet)
  from assms Inr b 1 2 show ?thesis
    by (auto simp: compute_metrics_pass_def Let_def outcome_extends_def split: sum.splits
        intro: extends_by_trans)
qed

lemmas step_defs = compute_metrics_pass_def load_stable_poses_def select_metrics_def
  metric_step_def variant_step_def grasp_step_def expand_variants_def gravity_method_def
  add_gripper_params_def init_grasp_entry_def record_quality_def perpendicular_table_def
  align_grasp_def deg2rad_def log_event_def gravity_wrench_def sample_stable_poses_def

lemma extends_by_new_events:
  assumes "extends_by P s s'"
  shows "trace s' = trace s @ new_events s s' \<and> list_all P (new_events s s')"
  using assms by (auto simp: extends_by_def new_events_def)

lemma new_events_log:
  assumes "extends_by P s s2" "trace s3 = trace s2"
  shows "new_events s (log_event e s3) = new_events s s2 @ [e]"
  using assms by (auto simp: extends_by_def new_events_def log_event_def)

lemma quiet_not_store: "list_all quiet evs \<Longrightarrow> e \<in> set evs \<Longrightarrow> \<not> is_store e"
  by (auto simp: list_all_iff quiet_def)

text \<open>
  C6: every pass of \<^verbatim>\<open>_compute_metrics\<close> that completes persists the record accumulated by
  the loop over the metrics through store_grasp_metrics with force_overwrite = True, whatever
  the value of the caller's overwrite parameter: the stored data and the last event of the
  trace are those of that call, and it is the only store event of the pass.
\<close>

theorem store_force_overwrite:
  assumes "compute_metrics_pass env obj gripper config stable_pose_id metric_name overwrite s
             = Inr s'"
  shows "\<exists>stable_poses s1 grasp_metrics s2.
           load_stable_poses env obj config stable_pose_id s = Inr (stable_poses, s1)
           \<and> for_each (metric_step env obj gripper config overwrite stable_poses
                          (ds_grasps env (dataset s) (key obj) (g_name gripper)))
                 (select_metrics config metric_name) (Map.empty, s1) = Inr (grasp_metrics, s2)
           \<and> dataset s' = ds_store_grasp_metrics env (key obj) grasp_metrics (g_name gripper)
                             True (dataset s2)
           \<and> trace s' = trace s2
                @ [StoreGraspMetrics (key obj) grasp_metrics (g_name gripper) True]
           \<and> (\<forall>e \<in> set (new_events s s'). is_store e \<longrightarrow>
                 e = StoreGraspMetrics (key obj) grasp_metrics (g_name gripper) True)"
proof -
  from compute_metrics_pass_Inr [OF assms] obtain stable_poses s1 grasp_metrics s2 where
    l: "load_stable_poses env obj config stable_pose_id s = Inr (stable_poses, s1)"
    and f: "for_each (metric_step env obj gripper config overwrite stable_poses
                          (ds_grasps env (dataset s) (key obj) (g_name gripper)))
                 (select_metrics config metric_name) (Map.empty, s1) = Inr (grasp_metrics, s2)"
    and s': "s' = log_event (StoreGraspMetrics (key obj) grasp_metrics (g_name gripper) True)
                    (s2\<lparr>dataset := ds_store_grasp_metrics env (key obj) grasp_metrics
                                       (g_name gripper) True (dataset s2)\<rparr>)"
    and q: "extends_by quiet s s2"
    by blast
  have n: "new_events s s' = new_events s s2
             @ [StoreGraspMetrics (key obj) grasp_metrics (g_name gripper) True]"
    unfolding s' by (rule new_events_log [OF q]) simp
  have "\<forall>e \<in> set (new_events s s'). is_store e \<longrightarrow>
                 e = StoreGraspMetrics (key obj) grasp_metrics (g_name gripper) True"
    using extends_by_new_events [OF q] quiet_not_store unfolding n by auto
  moreover have "dataset s' = ds_store_grasp_metrics env (key obj) grasp_metrics (g_name gripper)
                             True (dataset s2)"
    and "trace s' = trace s2
                @ [StoreGraspMetrics (key obj) grasp_metrics (g_name gripper) True]"
    by (simp_all add: s' log_event_def)
  ultimately show ?thesis using l f by blast
qed

lemma demo_pass_returns:
  "\<not> isl (compute_metrics_pass demo_env demo_obj demo_gripper demo_api_config None (Some ''wr'')
            ow demo_state)"
  by (simp add: demo_defs step_defs Let_def enumerate_eq_zip)

theorem store_force_overwrite_witness:
  "(\<exists>s' gm. compute_metrics_pass demo_env demo_obj demo_gripper demo_api_config None (Some ''wr'')
              False demo_state = Inr s'
           \<and> last (trace s') = StoreGraspMetrics (key demo_obj) gm (g_name demo_gripper) True)
   \<and> (\<exists>s' gm. compute_metrics_pass demo_env demo_obj demo_gripper demo_api_config None
              (Some ''wr'') True demo_state = Inr s'
           \<and> last (trace s') = StoreGraspMetrics (key demo_obj) gm (g_name demo_gripper) True)"
proof -
  have "\<exists>s' gm. compute_metrics_pass demo_env demo_obj demo_gripper demo_api_config None
              (Some ''wr'') ow demo_state = Inr s'
           \<and> last (trace s') = StoreGraspMetrics (key demo_obj) gm (g_name demo_gripper) True"
    for ow
  proof -
    from demo_pass_returns [of ow] obtain s' where
      r: "compute_metrics_pass demo_env demo_obj demo_gripper demo_api_config None (Some ''wr'')
            ow demo_state = Inr s'"
      by (cases "compute_metrics_pass demo_env demo_obj demo_gripper demo_api_config None
            (Some ''wr'') ow demo_state") auto
    from store_force_overwrite [OF r] obtain gm and s2 :: "demo_store api_state" where
      "trace s' = trace s2 @ [StoreGraspMetrics (key demo_obj) gm (g_name demo_gripper) True]"
      by blast
    then have "last (trace s') = StoreGraspMetrics (key demo_obj) gm (g_name demo_gripper) True"
      by simp
    with r show ?thesis by blast
  qed
  then show ?thesis by blast
qed

lemma tuple_step_Inr:
  assumes "tuple_step env config stable_pose overwrite obj_name gripper metric s = Inr s''"
  shows "\<exists>s' . ds_has_grasps env (dataset s) obj_name (g_name gripper)
       \<and> compute_metrics_pass env (ds_getitem env (dataset s) obj_name) gripper config stable_pose
            (Some metric) overwrite s = Inr s'
       \<and> s'' = log_event Flush (s'\<lparr>dataset := db_flush env (dataset s')\<rparr>)"
  using assms by (auto simp: tuple_step_def Let_def split: if_splits sum.splits)

lemma tuple_step_Inl:
  assumes "tuple_step env config stable_pose overwrite obj_name gripper metric s = Inl (e, s'')"
  shows "(\<not> ds_has_grasps env (dataset s) obj_name (g_name gripper) \<and> e = RuntimeWarning \<and> s'' = s)
     \<or> compute_metrics_pass env (ds_getitem env (dataset s) obj_name) gripper config stable_pose
            (Some metric) overwrite s = Inl (e, s'')"
  using assms by (auto simp: tuple_step_def Let_def split: if_splits sum.splits)

text \<open>
  C9: during a pass over an (object, gripper) pair no store_grasp_metrics call and no flush
  happens before all grasps of all variants have been processed: a pass that completes has
  logged quiet events (deletions, metric creations, quality calls) followed by exactly one
  store, a pass that raises has logged quiet events only, and in \<^verbatim>\<open>compute_metrics\<close> the
  flush of a tuple comes right after that store, and never when the tuple raises.
\<close>

theorem persist_once_at_end:
  "(compute_metrics_pass env obj gripper config stable_pose_id metric_name overwrite s = Inr s'
      \<longrightarrow> trace s' = trace s @ new_events s s'
          \<and> (\<exists>evs grasp_metrics.
                new_events s s'
                  = evs @ [StoreGraspMetrics (key obj) grasp_metrics (g_name gripper) True]
                \<and> list_all quiet evs))
   \<and> (compute_metrics_pass env obj gripper config stable_pose_id metric_name overwrite s
        = Inl (e, s')
      \<longrightarrow> trace s' = trace s @ new_events s s' \<and> list_all quiet (new_events s s'))
   \<and> (tuple_step env config stable_pose overwrite obj_name gripper metric s = Inr s''
      \<longrightarrow> trace s'' = trace s @ new_events s s''
          \<and> (\<exists>evs k grasp_metrics.
                new_events s s''
                  = evs @ [StoreGraspMetrics k grasp_metrics (g_name gripper) True, Flush]
                \<and> list_all quiet evs))
   \<and> (tuple_step env config stable_pose overwrite obj_name gripper metric s = Inl (e, s'')
      \<longrightarrow> trace s'' = trace s @ new_events s s'' \<and> list_all quiet (new_events s s''))"
proof -
  have store_last: "trace t' = trace t @ new_events t t'
          \<and> (\<exists>evs grasp_metrics.
                new_events t t'
                  = evs @ [StoreGraspMetrics (key ob) grasp_metrics (g_name gripper) True]
                \<and> list_all quiet evs)"
    if "compute_metrics_pass env ob gripper config sp mn overwrite t = Inr t'"
    for ob sp mn t t'
  proof -
    from compute_metrics_pass_Inr [OF that] obtain grasp_metrics s2 where
      t': "t' = log_event (StoreGraspMetrics (key ob) grasp_metrics (g_name gripper) True)
                    (s2\<lparr>dataset := ds_store_grasp_metrics env (key ob) grasp_metrics
                                       (g_name gripper) True (dataset s2)\<rparr>)"
      and q: "extends_by quiet t s2"
      by blast
    have n: "new_events t t' = new_events t s2
             @ [StoreGraspMetrics (key ob) grasp_metrics (g_name gripper) True]"
      unfolding t' by (rule new_events_log [OF q]) simp
    have tr2: "trace t' = trace s2
                 @ [StoreGraspMetrics (key ob) grasp_metrics (g_name gripper) True]"
      by (simp add: t' log_event_def)
    from extends_by_new_events [OF q] have "trace s2 = trace t @ new_events t s2" ..
    with tr2 have "trace t' = trace t @ new_events t t'"
      by (simp add: n)
    with n extends_by_new_events [OF q] show ?thesis by blast
  qed
  have a: "compute_metrics_pass env obj gripper config stable_pose_id metric_name overwrite s
        = Inr s'
      \<longrightarrow> trace s' = trace s @ new_events s s'
          \<and> (\<exists>evs grasp_metrics.
                new_events s s'
                  = evs @ [StoreGraspMetrics (key obj) grasp_metrics (g_name gripper) True]
                \<and> list_all quiet evs)"
    using store_last by blast
  have b: "compute_metrics_pass env obj gripper config stable_pose_id metric_name overwrite s
        = Inl (e, s')
      \<longrightarrow> trace s' = trace s @ new_events s s' \<and> list_all quiet (new_events s s')"
    using compute_metrics_pass_Inl extends_by_new_events by blast
  have c: "trace s'' = trace s @ new_events s s''
          \<and> (\<exists>evs k grasp_metrics.
                new_events s s''
                  = evs @ [StoreGraspMetrics k grasp_metrics (g_name gripper) True, Flush]
                \<and> list_all quiet evs)"
    if "tuple_step env config stable_pose overwrite obj_name gripper metric s = Inr s''"
  proof -
    from tuple_step_Inr [OF that] obtain t' where
      p: "compute_metrics_pass env (ds_getitem env (dataset s) obj_name) gripper config
            stable_pose (Some metric) overwrite s = Inr t'"
      and s'': "s'' = log_event Flush (t'\<lparr>dataset := db_flush env (dataset t')\<rparr>)"
      by blast
    from store_last [OF p] obtain evs grasp_metrics where
      tr: "trace t' = trace s @ new_events s t'"
      and n: "new_events s t' = evs @ [StoreGraspMetrics
                (key (ds_getitem env (dataset s) obj_name)) grasp_metrics (g_name gripper) True]"
      and q: "list_all quiet evs"
      by blast
    have "trace s'' = trace s @ (new_events s t' @ [Flush])"
      using tr by (simp add: s'' log_event_def)
    then have "new_events s s'' = new_events s t' @ [Flush]"
      and "trace s'' = trace s @ new_events s s''"
      by (simp_all add: new_events_def)
    with n q show ?thesis by auto
  qed
  have d: "tuple_step env config stable_pose overwrite obj_name gripper metric s = Inl (e, s'')
      \<longrightarrow> trace s'' = trace s @ new_events s s'' \<and> list_all quiet (new_events s s'')"
  proof
    assume t: "tuple_step env config stable_pose overwrite obj_name gripper metric s
                 = Inl (e, s'')"
    from tuple_step_Inl [OF t] show
      "trace s'' = trace s @ new_events s s'' \<and> list_all quiet (new_events s s'')"
    proof
      assume "\<not> ds_has_grasps env (dataset s) obj_name (g_name gripper)
                \<and> e = RuntimeWarning \<and> s'' = s"
      then show ?thesis by (simp add: new_events_def)
    next
      assume "compute_metrics_pass env (ds_getitem env (dataset s) obj_name) gripper config
                stable_pose (Some metric) overwrite s = Inl (e, s'')"
      from extends_by_new_events [OF compute_metrics_pass_Inl [OF this]]
      show ?thesis .
    qed
  qed
  from a b c d show ?thesis by blast
qed

lemma demo_pass_raises:
  "isl (compute_metrics_pass demo_env demo_obj demo_gripper
          (demo_api_config\<lparr>metric_display_rate := 0\<rparr>) None (Some ''wr'') False demo_state)"
  by (simp add: demo_defs step_defs Let_def enumerate_eq_zip)

lemma demo_tuple_returns:
  "\<not> isl (tuple_step demo_env demo_api_config None ow ''obj'' demo_gripper ''wr'' demo_state)"
  by (simp add: tuple_step_def demo_defs step_defs Let_def enumerate_eq_zip)

lemma demo_tuple_raises:
  "tuple_step demo_env demo_api_config None False ''bare'' demo_gripper ''wr'' demo_state
     = Inl (RuntimeWarning, demo_state)"
  by (simp add: tuple_step_def demo_env_def)

theorem persist_once_at_end_witness:
  "(\<exists>s'. compute_metrics_pass demo_env demo_obj demo_gripper demo_api_config None (Some ''wr'')
            False demo_state = Inr s'
         \<and> (\<exists>evs gm. new_events demo_state s'
                        = evs @ [StoreGraspMetrics (key demo_obj) gm (g_name demo_gripper) True]
                     \<and> list_all quiet evs))
   \<and> (\<exists>e s'. compute_metrics_pass demo_env demo_obj demo_gripper
               (demo_api_config\<lparr>metric_display_rate := 0\<rparr>) None (Some ''wr'') False demo_state
             = Inl (e, s')
         \<and> list_all quiet (new_events demo_state s'))
   \<and> (\<exists>s''. tuple_step demo_env demo_api_config None False ''obj'' demo_gripper ''wr'' demo_state
             = Inr s''
         \<and> (\<exists>evs k gm. new_events demo_state s''
                          = evs @ [StoreGraspMetrics k gm (g_name demo_gripper) True, Flush]
                       \<and> list_all quiet evs))
   \<and> (\<exists>e s''. tuple_step demo_env demo_api_config None False ''bare'' demo_gripper ''wr''
               demo_state = Inl (e, s'')
         \<and> list_all quiet (new_events demo_state s''))"
proof -
  from demo_pass_returns [of False] obtain s1 where
    r1: "compute_metrics_pass demo_env demo_obj demo_gripper demo_api_config None (Some ''wr'')
            False demo_state = Inr s1"
    by (cases "compute_metrics_pass demo_env demo_obj demo_gripper demo_api_config None
            (Some ''wr'') False demo_state") auto
  from demo_pass_raises obtain e2 s2 where
    r2: "compute_metrics_pass demo_env demo_obj demo_gripper
               (demo_api_config\<lparr>metric_display_rate := 0\<rparr>) None (Some ''wr'') False demo_state
             = Inl (e2, s2)"
    by (cases "compute_metrics_pass demo_env demo_obj demo_gripper
               (demo_api_config\<lparr>metric_display_rate := 0\<rparr>) None (Some ''wr'') False demo_state")
       auto
  from demo_tuple_returns [of False] obtain s3 where
    r3: "tuple_step demo_env demo_api_config None False ''obj'' demo_gripper ''wr'' demo_state
             = Inr s3"
    by (cases "tuple_step demo_env demo_api_config None False ''obj'' demo_gripper ''wr''
            demo_state") auto
  note r4 = demo_tuple_raises
  from persist_once_at_end [where env = demo_env and obj = demo_obj and gripper = demo_gripper
      and config = demo_api_config and stable_pose_id = None and metric_name = "Some ''wr''"
      and overwrite = False and s = demo_state and s' = s1] r1
  have c1: "\<exists>evs gm. new_events demo_state s1
                        = evs @ [StoreGraspMetrics (key demo_obj) gm (g_name demo_gripper) True]
                     \<and> list_all quiet evs"
    by blast
  from persist_once_at_end [where env = demo_env and obj = demo_obj and gripper = demo_gripper
      and config = "demo_api_config\<lparr>metric_display_rate := 0\<rparr>" and stable_pose_id = None
      and metric_name = "Some ''wr''" and overwrite = False and s = demo_state and s' = s2
      and e = e2] r2
  have c2: "list_all quiet (new_events demo_state s2)"
    by blast
  from persist_once_at_end [where env = demo_env and config = demo_api_config
      and stable_pose = None and overwrite = False and obj_name = "''obj''"
      and gripper = demo_gripper and metric = "''wr''" and s = demo_state and s'' = s3] r3
  have c3: "\<exists>evs k gm. new_events demo_state s3
                          = evs @ [StoreGraspMetrics k gm (g_name demo_gripper) True, Flush]
                       \<and> list_all quiet evs"
    by blast
  from persist_once_at_end [where env = demo_env and config = demo_api_config
      and stable_pose = None and overwrite = False and obj_name = "''bare''"
      and gripper = demo_gripper and metric = "''wr''" and s = demo_state
      and s'' = demo_state and e = RuntimeWarning] r4
  have c4: "list_all quiet (new_events demo_state demo_state)"
    by blast
  from r1 r2 r3 r4 c1 c2 c3 c4 show ?thesis by blast
qed

section \<open>Missing grasps in \<^verbatim>\<open>compute_metrics\<close>\<close>

lemma for_each_append:
  "for_each body (xs @ ys) st =
     (case for_each body xs st of Inl e \<Rightarrow> Inl e | Inr st' \<Rightarrow> for_each body ys st')"
  by (induction xs arbitrary: st) (simp_all split: sum.splits)

lemma for_each_map: "for_each body (map g xs) st = for_each (\<lambda>x. body (g x)) xs st"
  by (induction xs arbitrary: st) (simp_all split: sum.splits)

lemma for_each_concat:
  "for_each body (concat xss) st = for_each (\<lambda>xs. for_each body xs) xss st"
  by (induction xss arbitrary: st) (simp_all add: for_each_append split: sum.splits)

lemma for_each_cong:
  "(\<And>x. x \<in> set xs \<Longrightarrow> f x = g x) \<Longrightarrow> for_each f xs st = for_each g xs st"
  by (induction xs arbitrary: st) (simp_all split: sum.splits)

lemma nested_loops_run_tuples:
  "for_each (object_step env config grippers metric_names stable_pose overwrite) objects s =
     run_tuples env config stable_pose overwrite (tuples_of objects grippers metric_names) s"
proof -
  let ?T = "\<lambda>(obj_name, gripper_name, metric).
         tuple_step env config stable_pose overwrite obj_name
           (gr_load env gripper_name (gripper_dir config)) metric"
  have g: "gripper_step env config metric_names stable_pose overwrite obj_name gname =
      for_each ?T (map (\<lambda>metric. (obj_name, gname, metric)) metric_names)" for obj_name gname
    by (rule ext) (simp add: gripper_step_def for_each_map Let_def)
  have o: "object_step env config grippers metric_names stable_pose overwrite obj_name =
      for_each ?T (concat (map (\<lambda>gname. map (\<lambda>metric. (obj_name, gname, metric)) metric_names)
                             grippers))" for obj_name
  proof (rule ext)
    fix st
    have "for_each (gripper_step env config metric_names stable_pose overwrite obj_name)
            grippers st =
          for_each (\<lambda>gname. for_each ?T (map (\<lambda>metric. (obj_name, gname, metric)) metric_names))
            grippers st"
      by (rule for_each_cong) (rule g)
    then show "object_step env config grippers metric_names stable_pose overwrite obj_name st =
      for_each ?T (concat (map (\<lambda>gname. map (\<lambda>metric. (obj_name, gname, metric)) metric_names)
                             grippers)) st"
      by (simp add: object_step_def for_each_concat for_each_map)
  qed
  have "for_each (object_step env config grippers metric_names stable_pose overwrite) objects s =
        for_each (\<lambda>obj_name. for_each ?T (concat (map (\<lambda>gname.
             map (\<lambda>metric. (obj_name, gname, metric)) metric_names) grippers))) objects s"
    by (rule for_each_cong) (rule o)
  then show ?thesis
    by (simp add: run_tuples_def tuples_of_def for_each_concat for_each_map)
qed

lemma compute_metrics_run_tuples:
  assumes "database_open s" "dataset_open s"
    and "\<forall>g. gripper_name = Some g \<longrightarrow> g \<in> set (os_list_grippers env (gripper_dir config))"
    and "\<forall>ob. object_name = Some ob \<longrightarrow> ob \<in> set (ds_object_keys env (dataset s))"
    and "\<forall>m. metric_name = Some m \<longrightarrow> m \<in> fst ` set (metrics config)"
  shows "compute_metrics env config metric_name object_name gripper_name stable_pose overwrite s
     = run_tuples env config stable_pose overwrite
         (selected_tuples env config metric_name object_name gripper_name s) s"
proof -
  have "compute_metrics env config metric_name object_name gripper_name stable_pose overwrite s
     = for_each (object_step env config
           (case gripper_name of None \<Rightarrow> os_list_grippers env (gripper_dir config) | Some g \<Rightarrow> [g])
           (case metric_name of None \<Rightarrow> map fst (metrics config) | Some m \<Rightarrow> [m])
           stable_pose overwrite)
         (case object_name of None \<Rightarrow> ds_object_keys env (dataset s) | Some obj \<Rightarrow> [obj]) s"
    using assms by (auto simp: compute_metrics_def Let_def)
  then show ?thesis
    by (simp add: nested_loops_run_tuples selected_tuples_def)
qed

lemma run_tuples_missing_grasps:
  assumes "run_tuples env config stable_pose overwrite pre s = Inr s1"
    and "\<not> ds_has_grasps env (dataset s1) obj_name
             (g_name (gr_load env gname (gripper_dir config)))"
  shows "run_tuples env config stable_pose overwrite (pre @ (obj_name, gname, metric) # post) s
     = Inl (RuntimeWarning, s1)"
  using assms by (simp add: run_tuples_def for_each_append tuple_step_def)

text \<open>
  C8: when \<^verbatim>\<open>compute_metrics\<close> has passed its name checks and reaches an (object, gripper,
  metric) tuple for which no grasps exist, after the tuples before it have been processed,
  it raises RuntimeWarning in the state those tuples left: whatever tuples follow, none of
  them is processed.
\<close>

theorem missing_grasps_halts:
  assumes "database_open s" "dataset_open s"
    and "\<forall>g. gripper_name = Some g \<longrightarrow> g \<in> set (os_list_grippers env (gripper_dir config))"
    and "\<forall>ob. object_name = Some ob \<longrightarrow> ob \<in> set (ds_object_keys env (dataset s))"
    and "\<forall>m. metric_name = Some m \<longrightarrow> m \<in> fst ` set (metrics config)"
    and "selected_tuples env config metric_name object_name gripper_name s
           = pre @ (obj_name, gname, metric) # post"
    and "run_tuples env config stable_pose overwrite pre s = Inr s1"
    and "\<not> ds_has_grasps env (dataset s1) obj_name
             (g_name (gr_load env gname (gripper_dir config)))"
  shows "compute_metrics env config metric_name object_name gripper_name stable_pose overwrite s
     = Inl (RuntimeWarning, s1)"
  using compute_metrics_run_tuples [OF assms(1-5)] assms(6)
    run_tuples_missing_grasps [OF assms(7,8)]
  by simp

lemma demo_run_returns:
  "\<not> isl (run_tuples demo_env demo_api_config None True [(''obj'', ''gripper1'', ''wr'')]
            demo_state)"
  by (simp add: run_tuples_def tuple_step_def demo_defs step_defs Let_def enumerate_eq_zip)

theorem missing_grasps_halts_witness:
  "database_open demo_state \<and> dataset_open demo_state
   \<and> ''wr'' \<in> fst ` set (metrics demo_api_config)
   \<and> selected_tuples demo_env demo_api_config (Some ''wr'') None None demo_state
       = [(''obj'', ''gripper1'', ''wr'')] @ (''bare'', ''gripper1'', ''wr'')
           # [(''last'', ''gripper1'', ''wr'')]
   \<and> (\<exists>s1. run_tuples demo_env demo_api_config None True [(''obj'', ''gripper1'', ''wr'')]
              demo_state = Inr s1
           \<and> \<not> ds_has_grasps demo_env (dataset s1) ''bare''
                  (g_name (gr_load demo_env ''gripper1'' (gripper_dir demo_api_config)))
           \<and> compute_metrics demo_env demo_api_config (Some ''wr'') None None None True
                demo_state = Inl (RuntimeWarning, s1))"
proof -
  have h1: "database_open demo_state" and h2: "dataset_open demo_state"
    by (simp_all add: demo_state_def)
  have h3: "\<forall>g. (None :: string option) = Some g
              \<longrightarrow> g \<in> set (os_list_grippers demo_env (gripper_dir demo_api_config))"
    by simp
  have h4: "\<forall>ob. (None :: string option) = Some ob
              \<longrightarrow> ob \<in> set (ds_object_keys demo_env (dataset demo_state))"
    by simp
  have m: "''wr'' \<in> fst ` set (metrics demo_api_config)"
    by (simp add: demo_api_config_def)
  then have h5: "\<forall>m. Some ''wr'' = Some m \<longrightarrow> m \<in> fst ` set (metrics demo_api_config)"
    by simp
  have h6: "selected_tuples demo_env demo_api_config (Some ''wr'') None None demo_state
       = [(''obj'', ''gripper1'', ''wr'')] @ (''bare'', ''gripper1'', ''wr'')
           # [(''last'', ''gripper1'', ''wr'')]"
    by (simp add: selected_tuples_def tuples_of_def demo_env_def)
  from demo_run_returns obtain s1 where
    h7: "run_tuples demo_env demo_api_config None True [(''obj'', ''gripper1'', ''wr'')]
              demo_state = Inr s1"
    by (cases "run_tuples demo_env demo_api_config None True [(''obj'', ''gripper1'', ''wr'')]
              demo_state") auto
  have h8: "\<not> ds_has_grasps demo_env (dataset s1) ''bare''
                  (g_name (gr_load demo_env ''gripper1'' (gripper_dir demo_api_config)))"
    by (simp add: demo_env_def)
  from missing_grasps_halts [OF h1 h2 h3 h4 h5 h6 h7 h8] h1 h2 m h6 h7 h8
  show ?thesis by blast
qed

end
